theory Spec2Isabelle
  imports Complex_Main
begin

section \<open>Python values and failures\<close>

text \<open>
  The exceptions that the modelled parts of \<^verbatim>\<open>senteval/tools/classifier.py\<close> and
  \<^verbatim>\<open>senteval/tools/validation.py\<close> can raise. Every function that can raise returns
  \<open>error + 'a\<close>, with \<open>Inl\<close> for the exception. \<open>BackendError\<close> stands for whatever a
  failing call into PyTorch raises.
\<close>

datatype error =
    AssertionError
  | ValueError
  | TypeError
  | IndexError
  | ZeroDivisionError
  | RuntimeError
  | UnboundLocalError
  | BackendError

text \<open>Python's \<^verbatim>\<open>int(x)\<close> on a float truncates towards zero.\<close>

definition py_int :: "real \<Rightarrow> int" where
  "py_int x = (if 0 \<le> x then \<lfloor>x\<rfloor> else \<lceil>x\<rceil>)"

text \<open>
  Python's slices \<^verbatim>\<open>xs[k:]\<close> and \<^verbatim>\<open>xs[0:k]\<close> for an integer \<open>k\<close>: a negative bound counts
  from the end, and bounds are clipped to the sequence.
\<close>

definition slice_bound :: "nat \<Rightarrow> int \<Rightarrow> nat" where
  "slice_bound n k = (if k < 0 then nat (int n + k) else min (nat k) n)"

definition slice_from :: "int \<Rightarrow> 'a list \<Rightarrow> 'a list" where
  "slice_from k xs = drop (slice_bound (length xs) k) xs"

definition slice_to :: "int \<Rightarrow> 'a list \<Rightarrow> 'a list" where
  "slice_to k xs = take (slice_bound (length xs) k) xs"

text \<open>
  Fancy indexing \<^verbatim>\<open>X[idx]\<close> with an index array: every index must be in range
  (the indices drawn by \<^verbatim>\<open>np.random.permutation\<close> are never negative).
\<close>

definition gather :: "'a list \<Rightarrow> nat list \<Rightarrow> error + 'a list" where
  "gather xs idx = (if list_all (\<lambda>j. j < length xs) idx then Inr (map ((!) xs) idx) else Inl IndexError)"

text \<open>
  \<^verbatim>\<open>range(0, n, step)\<close>: a zero step raises, a negative step gives the empty range
  (\<open>n\<close> is a length), a positive step gives \<open>0, step, 2 * step, ...\<close> below \<open>n\<close>.
\<close>

definition range0 :: "nat \<Rightarrow> int \<Rightarrow> error + nat list" where
  "range0 n step =
     (if step = 0 then Inl ValueError
      else if step < 0 then Inr []
      else Inr (map (\<lambda>k. k * nat step) [0 ..< (n + nat step - 1) div nat step]))"

text \<open>
  The index of the first maximal element, as \<^verbatim>\<open>np.argmax\<close> and the index part of
  \<^verbatim>\<open>torch.max\<close> return it.
\<close>

definition first_max :: "'a::linorder list \<Rightarrow> nat" where
  "first_max xs = length (takeWhile (\<lambda>x. x \<noteq> Max (set xs)) xs)"

text \<open>\<^verbatim>\<open>np.argmax(scores)\<close> raises on an empty sequence.\<close>

definition np_argmax :: "'a::linorder list \<Rightarrow> error + nat" where
  "np_argmax xs = (if xs = [] then Inl ValueError else Inr (first_max xs))"

text \<open>\<^verbatim>\<open>regs[i]\<close> for a non-negative index.\<close>

definition index :: "'a list \<Rightarrow> nat \<Rightarrow> error + 'a" where
  "index xs i = (if i < length xs then Inr (xs ! i) else Inl IndexError)"

section \<open>The classifier trainer\<close>

text \<open>
  What the model takes from PyTorch and NumPy, as parameters:
  \<^item> \<open>forward w x\<close>: the row of class logits that the network with weights \<open>w\<close>, in
    evaluation mode, computes for the example \<open>x\<close> (\<^verbatim>\<open>self.model(Xbatch)\<close> row by row);
  \<^item> \<open>sgd_step w opt Xbatch ybatch\<close>: one forward computation in training mode, the loss,
    \<^verbatim>\<open>zero_grad\<close>, \<^verbatim>\<open>backward\<close> and \<^verbatim>\<open>optimizer.step()\<close> on a mini-batch; it gives the
    updated weights and optimizer state, or \<open>None\<close> when the step fails;
  \<^item> \<open>permutation rng n\<close>: \<^verbatim>\<open>np.random.permutation(n)\<close>, with the generator's new state;
  \<^item> \<open>softmax rows\<close>: the call of \<^verbatim>\<open>F.softmax\<close> on the NumPy array of the logits of a
    batch, or \<open>None\<close> when the call fails (\<^verbatim>\<open>F.softmax\<close> expects a tensor);
  \<^item> \<open>float_mul a b\<close>: the floating-point product of two floats, rounded as the machine
    rounds it.
\<close>

record ('w, 'x, 'l, 'o, 'r) backend =
  forward :: "'w \<Rightarrow> 'x \<Rightarrow> 'l list"
  sgd_step :: "'w \<Rightarrow> 'o \<Rightarrow> 'x list \<Rightarrow> int list \<Rightarrow> ('w \<times> 'o) option"
  permutation :: "'r \<Rightarrow> nat \<Rightarrow> nat list \<times> 'r"
  softmax :: "'l list list \<Rightarrow> real list list option"
  float_mul :: "real \<Rightarrow> real \<Rightarrow> real"

text \<open>
  The trainer object. Network objects live in a store (\<open>heap\<close>, addresses are positions);
  \<open>model\<close> is the reference \<^verbatim>\<open>self.model\<close>. The optimizer built by \<^verbatim>\<open>MLP.__init__\<close> holds
  the parameters of the object \<^verbatim>\<open>self.model\<close> refers to and updates them in place.
  \<open>rng\<close> is the state of NumPy's global generator.
\<close>

record ('w, 'o, 'r) trainer =
  heap :: "'w list"
  model :: nat
  optimizer :: 'o
  rng :: 'r
  nepoch :: int
  batch_size :: int
  tenacity :: int
  epoch_size :: int
  max_epoch :: int

subsection \<open>prepare_split\<close>

text \<open>
  \<^verbatim>\<open>assert validation_split or validation_data\<close>: \<^verbatim>\<open>None\<close> and \<^verbatim>\<open>0.0\<close> are false, a pair
  \<^verbatim>\<open>(devX, devy)\<close> is true.
\<close>

definition truthy_split :: "real option \<Rightarrow> bool" where
  "truthy_split validation_split = (case validation_split of None \<Rightarrow> False | Some v \<Rightarrow> v \<noteq> 0)"

definition truthy_data :: "('x list \<times> int list) option \<Rightarrow> bool" where
  "truthy_data validation_data = (case validation_data of None \<Rightarrow> False | Some _ \<Rightarrow> True)"

text \<open>
  The result is \<^verbatim>\<open>(trainX, trainy, devX, devy)\<close> and the state of the generator after the
  call. \<^verbatim>\<open>validation_split * len(X)\<close> is a floating-point product, truncated by \<^verbatim>\<open>int\<close>.
\<close>

definition prepare_split ::
  "('w, 'x, 'l, 'o, 'r) backend \<Rightarrow> 'r \<Rightarrow> 'x list \<Rightarrow> int list \<Rightarrow>
   ('x list \<times> int list) option \<Rightarrow> real option \<Rightarrow>
   error + ('x list \<times> int list \<times> 'x list \<times> int list \<times> 'r)" where
  "prepare_split B g X y validation_data validation_split =
     (if \<not> (truthy_split validation_split \<or> truthy_data validation_data) then Inl AssertionError
      else case validation_data of
        Some (devX, devy) \<Rightarrow> Inr (X, y, devX, devy, g)
      | None \<Rightarrow>
         (case validation_split of
            None \<Rightarrow> Inl TypeError
          | Some v \<Rightarrow>
             (let (perm, g') = permutation B g (length X);
                  k = py_int (float_mul B v (real (length X)));
                  trainidx = slice_from k perm;
                  devidx = slice_to k perm
              in case gather X trainidx of Inl e \<Rightarrow> Inl e
                 | Inr trainX \<Rightarrow>
                (case gather y trainidx of Inl e \<Rightarrow> Inl e
                 | Inr trainy \<Rightarrow>
                (case gather X devidx of Inl e \<Rightarrow> Inl e
                 | Inr devX \<Rightarrow>
                (case gather y devidx of Inl e \<Rightarrow> Inl e
                 | Inr devy \<Rightarrow> Inr (trainX, trainy, devX, devy, g')))))))"

subsection \<open>score, predict, predict_proba\<close>

text \<open>The slice \<^verbatim>\<open>devX[i:i + self.batch_size]\<close> of a batch (\<open>i\<close> and the size are not negative).\<close>

definition batch_slice :: "nat \<Rightarrow> nat \<Rightarrow> 'a list \<Rightarrow> 'a list" where
  "batch_slice i bs xs = take bs (drop i xs)"

text \<open>
  \<^verbatim>\<open>output.data.max(1)[1]\<close>: for every row of the batch the index of its first maximal
  logit; the reduction fails on rows without elements.
\<close>

definition torch_max1 :: "'l::linorder list list \<Rightarrow> error + nat list" where
  "torch_max1 rows = (if list_ex (\<lambda>r. r = []) rows then Inl IndexError else Inr (map first_max rows))"

text \<open>
  \<^verbatim>\<open>pred.long().eq(ybatch.data.long()).sum().item()\<close>: the number of positions where
  prediction and label agree. Two one-dimensional tensors of different lengths are
  compared only when one of them has a single element, which is then compared with
  every element of the other.
\<close>

definition eq_sum :: "nat list \<Rightarrow> int list \<Rightarrow> error + nat" where
  "eq_sum pred ybatch =
     (if length pred = length ybatch then Inr (length (filter (\<lambda>(p, t). int p = t) (zip pred ybatch)))
      else if length pred = 1 then Inr (length (filter (\<lambda>t. int (hd pred) = t) ybatch))
      else if length ybatch = 1 then Inr (length (filter (\<lambda>p. int p = hd ybatch) pred))
      else Inl RuntimeError)"

text \<open>The loop of \<^verbatim>\<open>score\<close> over the batch starts, with the running value of \<^verbatim>\<open>correct\<close>.\<close>

fun score_loop ::
  "('w, 'x, 'l::linorder, 'o, 'r) backend \<Rightarrow> 'w \<Rightarrow> nat \<Rightarrow> 'x list \<Rightarrow> int list \<Rightarrow>
   nat list \<Rightarrow> nat \<Rightarrow> error + nat" where
  "score_loop B w bs devX devy [] correct = Inr correct"
| "score_loop B w bs devX devy (i # starts) correct =
     (let Xbatch = batch_slice i bs devX;
          ybatch = batch_slice i bs devy;
          output = map (forward B w) Xbatch
      in case torch_max1 output of Inl e \<Rightarrow> Inl e
         | Inr pred \<Rightarrow>
        (case eq_sum pred ybatch of Inl e \<Rightarrow> Inl e
         | Inr c \<Rightarrow> score_loop B w bs devX devy starts (correct + c)))"

text \<open>
  \<^verbatim>\<open>score\<close> on the network object with weights \<open>w\<close>. The accuracy
  \<^verbatim>\<open>1.0 * correct / len(devX)\<close> is the exact quotient; dividing by the length of an empty
  \<^verbatim>\<open>devX\<close> raises.
\<close>

definition score_weights ::
  "('w, 'x, 'l::linorder, 'o, 'r) backend \<Rightarrow> 'w \<Rightarrow> int \<Rightarrow> 'x list \<Rightarrow> int list \<Rightarrow> error + real" where
  "score_weights B w bsz devX devy =
     (case range0 (length devX) bsz of Inl e \<Rightarrow> Inl e
      | Inr starts \<Rightarrow>
     (case score_loop B w (nat bsz) devX devy starts 0 of Inl e \<Rightarrow> Inl e
      | Inr correct \<Rightarrow>
          if length devX = 0 then Inl ZeroDivisionError
          else Inr (real correct / real (length devX))))"

definition score ::
  "('w, 'x, 'l::linorder, 'o, 'r) backend \<Rightarrow> ('w, 'o, 'r) trainer \<Rightarrow> 'x list \<Rightarrow> int list \<Rightarrow> error + real" where
  "score B s devX devy = score_weights B (heap s ! model s) (batch_size s) devX devy"

text \<open>The loop of \<^verbatim>\<open>predict\<close>, with the running value of \<^verbatim>\<open>yhat\<close> (\<^verbatim>\<open>np.append\<close> flattens).\<close>

fun predict_loop ::
  "('w, 'x, 'l::linorder, 'o, 'r) backend \<Rightarrow> 'w \<Rightarrow> nat \<Rightarrow> 'x list \<Rightarrow> nat list \<Rightarrow> nat list \<Rightarrow>
   error + nat list" where
  "predict_loop B w bs devX [] yhat = Inr yhat"
| "predict_loop B w bs devX (i # starts) yhat =
     (let Xbatch = batch_slice i bs devX;
          output = map (forward B w) Xbatch
      in case torch_max1 output of Inl e \<Rightarrow> Inl e
         | Inr pred \<Rightarrow> predict_loop B w bs devX starts (yhat @ pred))"

text \<open>
  \<^verbatim>\<open>np.vstack(yhat)\<close> turns the \<open>N\<close> collected class indices into an \<open>N \<times> 1\<close> column, one
  row per example, and raises when there is nothing to stack.
\<close>

definition np_vstack :: "'a list \<Rightarrow> error + 'a list list" where
  "np_vstack yhat = (if yhat = [] then Inl ValueError else Inr (map (\<lambda>c. [c]) yhat))"

definition predict ::
  "('w, 'x, 'l::linorder, 'o, 'r) backend \<Rightarrow> ('w, 'o, 'r) trainer \<Rightarrow> 'x list \<Rightarrow> error + nat list list" where
  "predict B s devX =
     (case range0 (length devX) (batch_size s) of Inl e \<Rightarrow> Inl e
      | Inr starts \<Rightarrow>
     (case predict_loop B (heap s ! model s) (nat (batch_size s)) devX starts [] of Inl e \<Rightarrow> Inl e
      | Inr yhat \<Rightarrow> np_vstack yhat))"

text \<open>
  The variable \<^verbatim>\<open>probas\<close> of \<^verbatim>\<open>predict_proba\<close> holds the empty Python list at first and
  an array afterwards. \<^verbatim>\<open>not probas\<close> is true for the empty list and for an array without
  elements, is the negation of the element for an array of one element, and raises for
  an array of more than one element, whose truth value is ambiguous.
\<close>

datatype probas = EmptyList | Array "real list list"

definition not_probas :: "probas \<Rightarrow> error + bool" where
  "not_probas p =
     (case p of
        EmptyList \<Rightarrow> Inr True
      | Array rows \<Rightarrow>
          (let elems = concat rows in
           if elems = [] then Inr True
           else if length elems = 1 then Inr (hd elems = 0)
           else Inl ValueError))"

text \<open>
  \<^verbatim>\<open>np.concatenate(probas, vals, axis=0)\<close> passes \<^verbatim>\<open>vals\<close> where the axis goes and gives the
  axis a second time: the call raises whatever the arrays are.
\<close>

definition np_concatenate_call :: "real list list \<Rightarrow> real list list \<Rightarrow> error + probas" where
  "np_concatenate_call probas vals = Inl TypeError"

fun predict_proba_loop ::
  "('w, 'x, 'l, 'o, 'r) backend \<Rightarrow> 'w \<Rightarrow> nat \<Rightarrow> 'x list \<Rightarrow> nat list \<Rightarrow> probas \<Rightarrow> error + probas" where
  "predict_proba_loop B w bs devX [] probas = Inr probas"
| "predict_proba_loop B w bs devX (i # starts) probas =
     (let Xbatch = batch_slice i bs devX in
      case softmax B (map (forward B w) Xbatch) of None \<Rightarrow> Inl BackendError
      | Some vals \<Rightarrow>
     (case not_probas probas of Inl e \<Rightarrow> Inl e
      | Inr True \<Rightarrow> predict_proba_loop B w bs devX starts (Array vals)
      | Inr False \<Rightarrow>
         (case probas of
            EmptyList \<Rightarrow> Inl TypeError
          | Array rows \<Rightarrow>
             (case np_concatenate_call rows vals of Inl e \<Rightarrow> Inl e
              | Inr probas' \<Rightarrow> predict_proba_loop B w bs devX starts probas'))))"

definition predict_proba ::
  "('w, 'x, 'l, 'o, 'r) backend \<Rightarrow> ('w, 'o, 'r) trainer \<Rightarrow> 'x list \<Rightarrow> error + probas" where
  "predict_proba B s devX =
     (case range0 (length devX) (batch_size s) of Inl e \<Rightarrow> Inl e
      | Inr starts \<Rightarrow> predict_proba_loop B (heap s ! model s) (nat (batch_size s)) devX starts EmptyList)"

subsection \<open>trainepoch\<close>

text \<open>
  The inner loop of \<^verbatim>\<open>trainepoch\<close> over the mini-batches of one pass: the batch is taken
  through the slice \<^verbatim>\<open>permutation[i:i + self.batch_size]\<close> of the pass's permutation, and
  one update is made on it.
\<close>

fun train_batches ::
  "('w, 'x, 'l, 'o, 'r) backend \<Rightarrow> 'x list \<Rightarrow> int list \<Rightarrow> nat \<Rightarrow> nat list \<Rightarrow> nat list \<Rightarrow>
   'w \<times> 'o \<Rightarrow> error + ('w \<times> 'o)" where
  "train_batches B X y bs perm [] wo = Inr wo"
| "train_batches B X y bs perm (i # starts) wo =
     (let idx = batch_slice i bs perm in
      case gather X idx of Inl e \<Rightarrow> Inl e
      | Inr Xbatch \<Rightarrow>
     (case gather y idx of Inl e \<Rightarrow> Inl e
      | Inr ybatch \<Rightarrow>
     (case sgd_step B (fst wo) (snd wo) Xbatch ybatch of None \<Rightarrow> Inl BackendError
      | Some wo' \<Rightarrow> train_batches B X y bs perm starts wo')))"

text \<open>
  The outer loop \<^verbatim>\<open>for _ in range(self.nepoch, self.nepoch + epoch_size)\<close>: the given
  number of passes, each with a fresh permutation. It works on the weights of the live
  network object, the optimizer state and the generator state.
\<close>

fun train_passes ::
  "('w, 'x, 'l, 'o, 'r) backend \<Rightarrow> nat \<Rightarrow> 'x list \<Rightarrow> int list \<Rightarrow> int \<Rightarrow>
   'w \<times> 'o \<times> 'r \<Rightarrow> error + ('w \<times> 'o \<times> 'r)" where
  "train_passes B 0 X y bsz wog = Inr wog"
| "train_passes B (Suc n) X y bsz (w, opt, g) =
     (let (perm, g') = permutation B g (length X) in
      case range0 (length X) bsz of Inl e \<Rightarrow> Inl e
      | Inr starts \<Rightarrow>
     (case train_batches B X y (nat bsz) perm starts (w, opt) of Inl e \<Rightarrow> Inl e
      | Inr (w', opt') \<Rightarrow> train_passes B n X y bsz (w', opt', g')))"

text \<open>
  \<^verbatim>\<open>trainepoch\<close>: the updates are made in place on the object \<^verbatim>\<open>self.model\<close> refers to,
  then \<^verbatim>\<open>self.nepoch += epoch_size\<close>.
\<close>

definition trainepoch ::
  "('w, 'x, 'l, 'o, 'r) backend \<Rightarrow> ('w, 'o, 'r) trainer \<Rightarrow> 'x list \<Rightarrow> int list \<Rightarrow> int \<Rightarrow>
   error + ('w, 'o, 'r) trainer" where
  "trainepoch B s X y esz =
     (case train_passes B (nat esz) X y (batch_size s) (heap s ! model s, optimizer s, rng s) of
        Inl e \<Rightarrow> Inl e
      | Inr (w, opt, g) \<Rightarrow>
          Inr (s\<lparr>heap := (heap s)[model s := w], optimizer := opt, rng := g,
                 nepoch := nepoch s + esz\<rparr>))"

subsection \<open>fit\<close>

text \<open>
  \<^verbatim>\<open>copy.deepcopy(self.model)\<close> allocates a new object with the same weights and gives
  its address.
\<close>

definition deepcopy :: "'w list \<Rightarrow> nat \<Rightarrow> nat \<times> 'w list" where
  "deepcopy h a = (length h, h @ [h ! a])"

text \<open>
  The trainer together with the local variables of \<^verbatim>\<open>fit\<close>; \<open>bestmodel\<close> is \<open>None\<close> as long
  as the variable is not bound.
\<close>

record ('w, 'o, 'r) fit_state =
  self :: "('w, 'o, 'r) trainer"
  bestaccuracy :: real
  bestmodel :: "nat option"
  stop_train :: bool
  early_stop_count :: int

text \<open>
  One execution of the body of the \<^verbatim>\<open>while\<close> loop. The accuracies compared are
  quotients by the same length \<^verbatim>\<open>len(devX)\<close>, so the floating-point values are ordered
  as the exact quotients are.
\<close>

definition fit_body ::
  "('w, 'x, 'l::linorder, 'o, 'r) backend \<Rightarrow> bool \<Rightarrow> 'x list \<Rightarrow> int list \<Rightarrow> 'x list \<Rightarrow> int list \<Rightarrow>
   ('w, 'o, 'r) fit_state \<Rightarrow> error + ('w, 'o, 'r) fit_state" where
  "fit_body B early_stop trainX trainy devX devy st =
     (case trainepoch B (self st) trainX trainy (epoch_size (self st)) of Inl e \<Rightarrow> Inl e
      | Inr s1 \<Rightarrow>
     (case score B s1 devX devy of Inl e \<Rightarrow> Inl e
      | Inr accuracy \<Rightarrow>
          if accuracy > bestaccuracy st then
            (let (a, h) = deepcopy (heap s1) (model s1) in
             Inr (st\<lparr>self := s1\<lparr>heap := h\<rparr>, bestaccuracy := accuracy, bestmodel := Some a\<rparr>))
          else if early_stop then
            Inr (st\<lparr>self := s1,
                    stop_train := (if early_stop_count st \<ge> tenacity s1 then True else stop_train st),
                    early_stop_count := early_stop_count st + 1\<rparr>)
          else Inr (st\<lparr>self := s1\<rparr>)))"

text \<open>
  The loop \<^verbatim>\<open>while not stop_train and self.nepoch <= self.max_epoch\<close>. It need not end
  (no epoch is counted when \<^verbatim>\<open>epoch_size\<close> is not positive): \<open>None\<close> is the run that
  never leaves the loop.
\<close>

partial_function (option) fit_loop ::
  "('w, 'x, 'l::linorder, 'o, 'r) backend \<Rightarrow> bool \<Rightarrow> 'x list \<Rightarrow> int list \<Rightarrow> 'x list \<Rightarrow> int list \<Rightarrow>
   ('w, 'o, 'r) fit_state \<Rightarrow> (error + ('w, 'o, 'r) fit_state) option" where
  "fit_loop B early_stop trainX trainy devX devy st =
     (if \<not> stop_train st \<and> nepoch (self st) \<le> max_epoch (self st) then
        (case fit_body B early_stop trainX trainy devX devy st of
           Inl e \<Rightarrow> Some (Inl e)
         | Inr st' \<Rightarrow> fit_loop B early_stop trainX trainy devX devy st')
      else Some (Inr st))"

declare fit_loop.simps [code]

text \<open>
  \<^verbatim>\<open>fit\<close> returns \<^verbatim>\<open>bestaccuracy\<close>; the trainer after the call is returned with it.
  \<^verbatim>\<open>self.model = bestmodel\<close> reads a variable that is bound only if the loop has found
  an accuracy above \<open>-1\<close>.
\<close>

definition fit_init :: "('w, 'o, 'r) trainer \<Rightarrow> ('w, 'o, 'r) fit_state" where
  "fit_init s = \<lparr>self = s, bestaccuracy = - 1, bestmodel = None, stop_train = False,
                 early_stop_count = 0\<rparr>"

definition fit ::
  "('w, 'x, 'l::linorder, 'o, 'r) backend \<Rightarrow> ('w, 'o, 'r) trainer \<Rightarrow> 'x list \<Rightarrow> int list \<Rightarrow>
   ('x list \<times> int list) option \<Rightarrow> real option \<Rightarrow> bool \<Rightarrow>
   (error + (real \<times> ('w, 'o, 'r) trainer)) option" where
  "fit B s X y validation_data validation_split early_stop =
     (case prepare_split B (rng s) X y validation_data validation_split of
        Inl e \<Rightarrow> Some (Inl e)
      | Inr (trainX, trainy, devX, devy, g) \<Rightarrow>
         (case fit_loop B early_stop trainX trainy devX devy (fit_init (s\<lparr>nepoch := 0, rng := g\<rparr>)) of
            None \<Rightarrow> None
          | Some (Inl e) \<Rightarrow> Some (Inl e)
          | Some (Inr st) \<Rightarrow>
             (case bestmodel st of
                None \<Rightarrow> Some (Inl UnboundLocalError)
              | Some a \<Rightarrow> Some (Inr (bestaccuracy st, (self st)\<lparr>model := a\<rparr>)))))"

section \<open>Model selection in the validation strategies\<close>

text \<open>
  The candidate lists of the three \<^verbatim>\<open>run\<close> methods:
  \<^verbatim>\<open>[10**t for t in range(-5, -1)]\<close> with PyTorch, and powers of two for scikit-learn
  (\<^verbatim>\<open>range(-2, 4)\<close> in \<^verbatim>\<open>InnerKFoldClassifier\<close> and \<^verbatim>\<open>SplitClassifier\<close>,
  \<^verbatim>\<open>range(-1, 6)\<close> in \<^verbatim>\<open>KFoldClassifier\<close>); \<^verbatim>\<open>noreg\<close> replaces the list of
  \<^verbatim>\<open>SplitClassifier\<close> by a single value.
\<close>

definition pytorch_regs :: "real list" where
  "pytorch_regs = [1 / 100000, 1 / 10000, 1 / 1000, 1 / 100]"

definition innerkfold_regs :: "bool \<Rightarrow> real list" where
  "innerkfold_regs usepytorch = (if usepytorch then pytorch_regs else [1 / 4, 1 / 2, 1, 2, 4, 8])"

definition kfold_regs :: "bool \<Rightarrow> real list" where
  "kfold_regs usepytorch = (if usepytorch then pytorch_regs else [1 / 2, 1, 2, 4, 8, 16, 32])"

definition split_regs :: "bool \<Rightarrow> bool \<Rightarrow> real list" where
  "split_regs usepytorch noreg =
     (if noreg then [if usepytorch then 1 / 1000000000 else 1000000000]
      else if usepytorch then pytorch_regs else [1 / 4, 1 / 2, 1, 2, 4, 8])"

text \<open>
  Each \<^verbatim>\<open>run\<close> fills \<^verbatim>\<open>scores\<close> with one entry per candidate, in the order of \<^verbatim>\<open>regs\<close>
  (\<^verbatim>\<open>scores.append(round(100 * ..., 2))\<close>); \<open>evaluate reg\<close> stands for the rounded
  percentage that training and scoring with \<open>reg\<close> gives.
\<close>

definition score_table :: "(real \<Rightarrow> real) \<Rightarrow> real list \<Rightarrow> real list" where
  "score_table evaluate regs = map evaluate regs"

text \<open>\<^verbatim>\<open>optreg = regs[np.argmax(scores)]\<close>, the same line in the three strategies.\<close>

definition optreg :: "real list \<Rightarrow> real list \<Rightarrow> error + real" where
  "optreg regs scores = (case np_argmax scores of Inl e \<Rightarrow> Inl e | Inr i \<Rightarrow> index regs i)"

definition innerkfold_optreg :: "bool \<Rightarrow> (real \<Rightarrow> real) \<Rightarrow> error + real" where
  "innerkfold_optreg usepytorch evaluate =
     optreg (innerkfold_regs usepytorch) (score_table evaluate (innerkfold_regs usepytorch))"

definition kfold_optreg :: "bool \<Rightarrow> (real \<Rightarrow> real) \<Rightarrow> error + real" where
  "kfold_optreg usepytorch evaluate =
     optreg (kfold_regs usepytorch) (score_table evaluate (kfold_regs usepytorch))"

definition split_optreg :: "bool \<Rightarrow> bool \<Rightarrow> (real \<Rightarrow> real) \<Rightarrow> error + real" where
  "split_optreg usepytorch noreg evaluate =
     optreg (split_regs usepytorch noreg) (score_table evaluate (split_regs usepytorch noreg))"

text \<open>
  What the selection is expected to give: a candidate \<open>regs ! i\<close> whose score is maximal in
  the table and strictly above the score of every candidate before it in the list.
\<close>

definition first_maximum :: "real list \<Rightarrow> real list \<Rightarrow> error + real \<Rightarrow> bool" where
  "first_maximum regs scores r =
     (\<exists>i < length regs. r = Inr (regs ! i) \<and> length scores = length regs \<and>
        (\<forall>j < length scores. scores ! j \<le> scores ! i) \<and> (\<forall>j < i. scores ! j < scores ! i))"

section \<open>Training traces\<close>

text \<open>
  Notions for stating what \<^verbatim>\<open>fit\<close> computes. They work on values only and know nothing
  of the store. The live state of a trainer is what \<^verbatim>\<open>trainepoch\<close> reads and updates:
  the weights of the object \<^verbatim>\<open>self.model\<close> refers to, the optimizer state and the
  generator state.
\<close>

definition live :: "('w, 'o, 'r) trainer \<Rightarrow> 'w \<times> 'o \<times> 'r" where
  "live s = (heap s ! model s, optimizer s, rng s)"

text \<open>
  The trace of \<open>n\<close> successive epochs from a live state: for every epoch the validation
  accuracy measured after it and the weights the live network has after it. An epoch is
  \<^verbatim>\<open>epoch_size\<close> passes, as one call of \<^verbatim>\<open>trainepoch\<close> makes them.
\<close>

fun epoch_trace ::
  "('w, 'x, 'l::linorder, 'o, 'r) backend \<Rightarrow> 'x list \<Rightarrow> int list \<Rightarrow> int \<Rightarrow> int \<Rightarrow> 'x list \<Rightarrow> int list \<Rightarrow>
   nat \<Rightarrow> 'w \<times> 'o \<times> 'r \<Rightarrow> error + (real \<times> 'w) list" where
  "epoch_trace B trainX trainy esz bsz devX devy 0 wog = Inr []"
| "epoch_trace B trainX trainy esz bsz devX devy (Suc n) wog =
     (case train_passes B (nat esz) trainX trainy bsz wog of Inl e \<Rightarrow> Inl e
      | Inr wog' \<Rightarrow>
     (case score_weights B (fst wog') bsz devX devy of Inl e \<Rightarrow> Inl e
      | Inr a \<Rightarrow>
     (case epoch_trace B trainX trainy esz bsz devX devy n wog' of Inl e \<Rightarrow> Inl e
      | Inr tr \<Rightarrow> Inr ((a, fst wog') # tr))))"

text \<open>
  The progress of the early-stopping loop along a trace: the number of epochs run, the
  best accuracy, the weights that reached it, the stop flag and the number of failures.
  \<open>progress_step\<close> is the effect of one epoch with entry \<open>e\<close> of the trace, \<open>loop_exit\<close>
  is the negated loop condition after \<open>iters\<close> epochs of \<open>esz\<close> passes, and \<open>run_trace\<close>
  follows a trace as long as the loop condition holds.
\<close>

record 'w progress =
  iters :: nat
  best :: real
  snap :: "'w option"
  stopped :: bool
  fails :: int

definition progress_init :: "'w progress" where
  "progress_init = \<lparr>iters = 0, best = - 1, snap = None, stopped = False, fails = 0\<rparr>"

definition progress_step :: "bool \<Rightarrow> int \<Rightarrow> real \<times> 'w \<Rightarrow> 'w progress \<Rightarrow> 'w progress" where
  "progress_step es ten e p =
     (if fst e > best p then p\<lparr>iters := Suc (iters p), best := fst e, snap := Some (snd e)\<rparr>
      else if es then p\<lparr>iters := Suc (iters p), stopped := (fails p \<ge> ten \<or> stopped p), fails := fails p + 1\<rparr>
      else p\<lparr>iters := Suc (iters p)\<rparr>)"

definition loop_exit :: "int \<Rightarrow> int \<Rightarrow> 'w progress \<Rightarrow> bool" where
  "loop_exit mx esz p \<longleftrightarrow> stopped p \<or> mx < int (iters p) * esz"

fun run_trace :: "bool \<Rightarrow> int \<Rightarrow> int \<Rightarrow> int \<Rightarrow> 'w progress \<Rightarrow> (real \<times> 'w) list \<Rightarrow> 'w progress" where
  "run_trace es ten mx esz p [] = p"
| "run_trace es ten mx esz p (e # tr) =
     (if \<not> stopped p \<and> int (iters p) * esz \<le> mx
      then run_trace es ten mx esz (progress_step es ten e p) tr else p)"

text \<open>
  The number of non-improving epochs in a sequence of validation accuracies, consecutive
  or not: the epochs whose accuracy is not strictly above the best accuracy before them,
  \<open>b\<close> being the best accuracy before the sequence.
\<close>

fun failures :: "real \<Rightarrow> real list \<Rightarrow> nat" where
  "failures b [] = 0"
| "failures b (a # as) = (if b < a then failures a as else Suc (failures b as))"

text \<open>
  A state of \<^verbatim>\<open>fit\<close> follows a progress when its local variables have the values of the
  progress and, if a snapshot has been taken, \<^verbatim>\<open>bestmodel\<close> refers to an object of the
  store that is not the live object and holds the weights of the snapshot.
\<close>

definition follows :: "('w, 'o, 'r) fit_state \<Rightarrow> 'w progress \<Rightarrow> bool" where
  "follows st p \<longleftrightarrow>
     model (self st) < length (heap (self st)) \<and>
     nepoch (self st) = int (iters p) * epoch_size (self st) \<and>
     bestaccuracy st = best p \<and> stop_train st = stopped p \<and> early_stop_count st = fails p \<and>
     (case snap p of None \<Rightarrow> bestmodel st = None
      | Some w \<Rightarrow> \<exists>b. bestmodel st = Some b \<and> b < length (heap (self st)) \<and> b \<noteq> model (self st) \<and>
                     heap (self st) ! b = w)"

definition same_config :: "('w, 'o, 'r) trainer \<Rightarrow> ('w, 'o, 'r) trainer \<Rightarrow> bool" where
  "same_config s s' \<longleftrightarrow>
     batch_size s' = batch_size s \<and> tenacity s' = tenacity s \<and> epoch_size s' = epoch_size s \<and>
     max_epoch s' = max_epoch s \<and> model s' = model s"

section \<open>A concrete backend\<close>

text \<open>
  A small backend on which the definitions can be run: the weights are a counter that
  every update increments, an example \<open>x\<close> is classified as class 1 once the counter is
  above \<open>x\<close> and as class 0 before, permutations reverse the order, the call of
  \<^verbatim>\<open>F.softmax\<close> on a NumPy array fails, and products are exact.
\<close>

definition toy_backend :: "(nat, nat, real, nat, nat) backend" where
  "toy_backend =
     \<lparr>forward = (\<lambda>w x. if x < w then [0, 1] else [1, 0]),
      sgd_step = (\<lambda>w opt Xbatch ybatch. Some (w + 1, opt + 1)),
      permutation = (\<lambda>g n. (rev [0 ..< n], g + 1)),
      softmax = (\<lambda>rows. None),
      float_mul = (\<lambda>a b. a * b)\<rparr>"

definition toy_trainer :: "(nat, nat, nat) trainer" where
  "toy_trainer =
     \<lparr>heap = [0], model = 0, optimizer = 0, rng = 0, nepoch = 0,
      batch_size = 1, tenacity = 1, epoch_size = 1, max_epoch = 10\<rparr>"

section \<open>Properties of prepare_split\<close>

text \<open>
  C3, as the code has it: \<^verbatim>\<open>prepare_split\<close> fails its assertion exactly when neither
  argument is supplied, that is when \<^verbatim>\<open>validation_data\<close> is \<^verbatim>\<open>None\<close> and
  \<^verbatim>\<open>validation_split\<close> is \<^verbatim>\<open>None\<close> or zero. The assertion is the first statement, so
  nothing has been split then. With both arguments supplied the assertion holds.
\<close>

theorem prepare_split_assertion_iff:
  "prepare_split B g X y validation_data validation_split = Inl AssertionError \<longleftrightarrow>
   validation_data = None \<and> (validation_split = None \<or> validation_split = Some 0)"
  by (auto simp: prepare_split_def truthy_split_def truthy_data_def gather_def Let_def
           split: option.splits prod.splits sum.splits if_splits)

theorem prepare_split_assertion_iff_witness:
  "prepare_split toy_backend 0 [5, 6] [0, 0] None None = Inl AssertionError"
  using prepare_split_assertion_iff [of toy_backend 0 "[5, 6]" "[0, 0]" None None] by simp

text \<open>
  C3 as stated fails: with both \<^verbatim>\<open>validation_data\<close> and \<^verbatim>\<open>validation_split\<close> supplied the
  call returns.
\<close>

theorem prepare_split_both_counterexample:
  "prepare_split toy_backend 0 [5, 6] [0, 0] (Some ([0, 1], [1, 1])) (Some (1 / 5))
     = Inr ([5, 6], [0, 0], [0, 1], [1, 1], 0)"
  by (simp add: prepare_split_def truthy_split_def truthy_data_def)

text \<open>
  C9: when both \<^verbatim>\<open>validation_data\<close> and \<^verbatim>\<open>validation_split\<close> are supplied, no error is
  raised, \<^verbatim>\<open>validation_split\<close> is ignored, and the call returns the whole input as the
  training part together with the pair of \<^verbatim>\<open>validation_data\<close>; no permutation is drawn.
\<close>

theorem prepare_split_validation_data_precedence:
  "prepare_split B g X y (Some (devX, devy)) (Some v) = Inr (X, y, devX, devy, g)"
  by (simp add: prepare_split_def truthy_split_def truthy_data_def)

section \<open>Properties of the model selection\<close>

lemma first_max_less: "xs \<noteq> [] \<Longrightarrow> first_max xs < length xs"
proof -
  assume ne: "xs \<noteq> []"
  let ?P = "\<lambda>x. x \<noteq> Max (set xs)"
  have "Max (set xs) \<in> set xs" using ne by simp
  then have "takeWhile ?P xs \<noteq> xs" by (auto simp: takeWhile_eq_all_conv)
  moreover have "takeWhile ?P xs = take (length (takeWhile ?P xs)) xs" by (rule takeWhile_eq_take)
  moreover have "length (takeWhile ?P xs) \<le> length xs" by (rule length_takeWhile_le)
  ultimately show ?thesis unfolding first_max_def
    by (metis le_neq_implies_less take_all order_refl)
qed

lemma first_max_is_max: "xs \<noteq> [] \<Longrightarrow> xs ! first_max xs = Max (set xs)"
  using first_max_less[of xs] nth_length_takeWhile[of "\<lambda>x. x \<noteq> Max (set xs)" xs]
  unfolding first_max_def by simp

lemma first_max_before: "j < first_max xs \<Longrightarrow> xs ! j < Max (set xs)"
proof -
  assume j: "j < first_max xs"
  let ?P = "\<lambda>x. x \<noteq> Max (set xs)"
  have "takeWhile ?P xs ! j = xs ! j" using j unfolding first_max_def by (rule takeWhile_nth)
  moreover have "takeWhile ?P xs ! j \<in> set (takeWhile ?P xs)" using j unfolding first_max_def by simp
  ultimately have "xs ! j \<in> set xs \<and> xs ! j \<noteq> Max (set xs)" using set_takeWhileD by metis
  then show ?thesis by (simp add: order.strict_iff_order)
qed

lemma optreg_first_maximum:
  assumes "regs \<noteq> []"
  shows "first_maximum regs (score_table evaluate regs) (optreg regs (score_table evaluate regs))"
proof -
  let ?sc = "score_table evaluate regs"
  let ?i = "first_max ?sc"
  have len: "length ?sc = length regs" and ne: "?sc \<noteq> []"
    using assms by (simp_all add: score_table_def)
  have i: "?i < length regs" using first_max_less [OF ne] len by simp
  have r: "optreg regs ?sc = Inr (regs ! ?i)"
    using ne i by (simp add: optreg_def np_argmax_def index_def)
  have mx: "?sc ! ?i = Max (set ?sc)" by (rule first_max_is_max [OF ne])
  have all: "\<forall>j < length ?sc. ?sc ! j \<le> ?sc ! ?i" using mx by simp
  have before: "\<forall>j < ?i. ?sc ! j < ?sc ! ?i" using mx first_max_before by metis
  show ?thesis unfolding first_maximum_def using i r len all before by blast
qed

text \<open>
  C6: in the three strategies the chosen candidate is a function of the score table: it
  is a candidate with the maximal score, and every candidate before it in the list has a
  strictly smaller score, so among tied maxima the first one is chosen.
\<close>

theorem optreg_selects_first_maximum:
  "first_maximum (innerkfold_regs usepytorch) (score_table e1 (innerkfold_regs usepytorch))
     (innerkfold_optreg usepytorch e1) \<and>
   first_maximum (kfold_regs usepytorch) (score_table e2 (kfold_regs usepytorch))
     (kfold_optreg usepytorch e2) \<and>
   first_maximum (split_regs usepytorch noreg) (score_table e3 (split_regs usepytorch noreg))
     (split_optreg usepytorch noreg e3)"
proof -
  have "innerkfold_regs usepytorch \<noteq> []" "kfold_regs usepytorch \<noteq> []"
       "split_regs usepytorch noreg \<noteq> []"
    by (simp_all add: innerkfold_regs_def kfold_regs_def split_regs_def pytorch_regs_def)
  then show ?thesis
    unfolding innerkfold_optreg_def kfold_optreg_def split_optreg_def
    by (simp add: optreg_first_maximum)
qed

theorem optreg_selects_first_maximum_witness:
  "(first_maximum (innerkfold_regs True) (score_table (\<lambda>r. 90) (innerkfold_regs True))
      (innerkfold_optreg True (\<lambda>r. 90)) \<and>
    first_maximum (kfold_regs True) (score_table (\<lambda>r. if r < 1 / 1000 then 80 else 90) (kfold_regs True))
      (kfold_optreg True (\<lambda>r. if r < 1 / 1000 then 80 else 90)) \<and>
    first_maximum (split_regs True False) (score_table (\<lambda>r. 50) (split_regs True False))
      (split_optreg True False (\<lambda>r. 50))) \<and>
   (innerkfold_optreg True (\<lambda>r. 90) = Inr (1 / 100000) \<and>
    kfold_optreg True (\<lambda>r. if r < 1 / 1000 then 80 else 90) = Inr (1 / 1000))"
proof (rule conjI)
  show "first_maximum (innerkfold_regs True) (score_table (\<lambda>r. 90) (innerkfold_regs True))
      (innerkfold_optreg True (\<lambda>r. 90)) \<and>
    first_maximum (kfold_regs True) (score_table (\<lambda>r. if r < 1 / 1000 then 80 else 90) (kfold_regs True))
      (kfold_optreg True (\<lambda>r. if r < 1 / 1000 then 80 else 90)) \<and>
    first_maximum (split_regs True False) (score_table (\<lambda>r. 50) (split_regs True False))
      (split_optreg True False (\<lambda>r. 50))"
    by (rule optreg_selects_first_maximum)
  show "innerkfold_optreg True (\<lambda>r. 90) = Inr (1 / 100000) \<and>
    kfold_optreg True (\<lambda>r. if r < 1 / 1000 then 80 else 90) = Inr (1 / 1000)"
    by (simp add: innerkfold_optreg_def kfold_optreg_def optreg_def np_argmax_def index_def
          first_max_def score_table_def innerkfold_regs_def kfold_regs_def pytorch_regs_def)
qed

section \<open>Properties of score, predict and predict_proba\<close>

lemma range0_pos:
  "0 < bsz \<Longrightarrow> range0 n bsz = Inr (map (\<lambda>k. k * nat bsz) [0 ..< (n + nat bsz - 1) div nat bsz])"
  by (simp add: range0_def)

lemma concat_batches_take:
  "concat (map (\<lambda>k. batch_slice (k * b) b xs) [0 ..< m]) = take (m * b) xs"
proof (induction m)
  case 0
  show ?case by simp
next
  case (Suc m)
  have "take (m * b) xs @ take b (drop (m * b) xs) = take (m * b + b) xs"
    by (simp add: take_add)
  then show ?case using Suc by (simp add: batch_slice_def add.commute)
qed

lemma batches_cover:
  assumes "0 < b"
  shows "concat (map (\<lambda>i. batch_slice i b xs) (map (\<lambda>k. k * b) [0 ..< (length xs + b - 1) div b])) = xs"
proof -
  have "length xs \<le> ((length xs + b - 1) div b) * b"
  proof -
    have "(length xs + b - 1) mod b < b" using assms by simp
    moreover have "((length xs + b - 1) div b) * b + (length xs + b - 1) mod b = length xs + b - 1"
      by simp
    ultimately show ?thesis by linarith
  qed
  then show ?thesis by (simp add: concat_batches_take comp_def)
qed

lemma range0_cover:
  assumes "0 < bsz"
  obtains starts where "range0 n bsz = Inr starts"
    and "\<And>xs :: 'a list. length xs = n \<Longrightarrow> concat (map (\<lambda>i. batch_slice i (nat bsz) xs) starts) = xs"
proof -
  have b: "0 < nat bsz" using assms by simp
  let ?starts = "map (\<lambda>k. k * nat bsz) [0 ..< (n + nat bsz - 1) div nat bsz]"
  have "range0 n bsz = Inr ?starts" by (rule range0_pos [OF assms])
  moreover have "concat (map (\<lambda>i. batch_slice i (nat bsz) xs) ?starts) = xs"
    if "length xs = n" for xs :: "'a list"
    using batches_cover [OF b, of xs] that by simp
  ultimately show ?thesis using that by blast
qed

lemma torch_max1_nonempty:
  "\<forall>r \<in> set rows. r \<noteq> [] \<Longrightarrow> torch_max1 rows = Inr (map first_max rows)"
  by (auto simp: torch_max1_def list_ex_iff)

lemma batch_slice_subset: "set (batch_slice i b xs) \<subseteq> set xs"
  unfolding batch_slice_def by (meson set_take_subset set_drop_subset subset_trans)

lemma batch_slice_zip:
  "zip (batch_slice i b xs) (batch_slice i b ys) = batch_slice i b (zip xs ys)"
  by (simp add: batch_slice_def take_zip drop_zip)

lemma batch_slice_map: "map f (batch_slice i b xs) = batch_slice i b (map f xs)"
  by (simp add: batch_slice_def take_map drop_map)

lemma batch_slice_length:
  "length xs = length ys \<Longrightarrow> length (batch_slice i b xs) = length (batch_slice i b ys)"
  by (simp add: batch_slice_def)

lemma eq_sum_same_length:
  "length pred = length ybatch \<Longrightarrow>
   eq_sum pred ybatch = Inr (length (filter (\<lambda>(p, t). int p = t) (zip pred ybatch)))"
  by (simp add: eq_sum_def)

lemma score_loop_counts:
  assumes "\<forall>x \<in> set devX. forward B w x \<noteq> []" "length devX = length devy"
  shows "score_loop B w b devX devy starts c =
     Inr (c + length (filter (\<lambda>(p, t). int p = t)
            (concat (map (\<lambda>i. batch_slice i b (zip (map (\<lambda>x. first_max (forward B w x)) devX) devy)) starts))))"
proof (induction starts arbitrary: c)
  case Nil
  show ?case by simp
next
  case (Cons i starts)
  let ?Xb = "batch_slice i b devX"
  have ne: "\<forall>r \<in> set (map (forward B w) ?Xb). r \<noteq> []"
    using assms(1) batch_slice_subset [of i b devX] by auto
  have mx: "torch_max1 (map (forward B w) ?Xb) =
      Inr (batch_slice i b (map (\<lambda>x. first_max (forward B w x)) devX))"
    using torch_max1_nonempty [OF ne] by (simp add: batch_slice_map [symmetric] comp_def)
  have len: "length (batch_slice i b (map (\<lambda>x. first_max (forward B w x)) devX)) = length (batch_slice i b devy)"
    using assms(2) by (simp add: batch_slice_def)
  show ?case
    using Cons.IH
    by (simp add: mx eq_sum_same_length [OF len] batch_slice_zip Let_def)
qed

lemma predict_loop_collects:
  assumes "\<forall>x \<in> set devX. forward B w x \<noteq> []"
  shows "predict_loop B w b devX starts yhat =
     Inr (yhat @ concat (map (\<lambda>i. batch_slice i b (map (\<lambda>x. first_max (forward B w x)) devX)) starts))"
proof (induction starts arbitrary: yhat)
  case Nil
  show ?case by simp
next
  case (Cons i starts)
  let ?Xb = "batch_slice i b devX"
  have ne: "\<forall>r \<in> set (map (forward B w) ?Xb). r \<noteq> []"
    using assms(1) batch_slice_subset [of i b devX] by auto
  have mx: "torch_max1 (map (forward B w) ?Xb) =
      Inr (batch_slice i b (map (\<lambda>x. first_max (forward B w x)) devX))"
    using torch_max1_nonempty [OF ne] by (simp add: batch_slice_map [symmetric] comp_def)
  show ?case using Cons.IH by (simp add: mx Let_def)
qed

lemma score_weights_fraction:
  assumes "0 < bsz" "length devX = length devy" "devX \<noteq> []" "\<forall>x \<in> set devX. forward B w x \<noteq> []"
  shows "score_weights B w bsz devX devy =
     Inr (real (length (filter (\<lambda>(p, t). int p = t) (zip (map (\<lambda>x. first_max (forward B w x)) devX) devy)))
          / real (length devX))"
proof -
  let ?zs = "zip (map (\<lambda>x. first_max (forward B w x)) devX) devy"
  obtain starts where r: "range0 (length devX) bsz = Inr starts"
    and cover: "\<And>xs :: (nat \<times> int) list. length xs = length devX \<Longrightarrow>
                  concat (map (\<lambda>i. batch_slice i (nat bsz) xs) starts) = xs"
    using range0_cover [OF assms(1), of "length devX"] by metis
  have len: "length ?zs = length devX" using assms(2) by simp
  have loop: "score_loop B w (nat bsz) devX devy starts 0 =
      Inr (length (filter (\<lambda>(p, t). int p = t) ?zs))"
    unfolding score_loop_counts [OF assms(4) assms(2)] cover [OF len] by simp
  show ?thesis
    using assms(3) by (simp add: score_weights_def r loop)
qed

lemma predict_rows:
  assumes "0 < batch_size s" "devX \<noteq> []" "\<forall>x \<in> set devX. forward B (heap s ! model s) x \<noteq> []"
  shows "predict B s devX = Inr (map (\<lambda>x. [first_max (forward B (heap s ! model s) x)]) devX)"
proof -
  let ?ps = "map (\<lambda>x. first_max (forward B (heap s ! model s) x)) devX"
  obtain starts where r: "range0 (length devX) (batch_size s) = Inr starts"
    and cover: "\<And>xs :: nat list. length xs = length devX \<Longrightarrow>
                  concat (map (\<lambda>i. batch_slice i (nat (batch_size s)) xs) starts) = xs"
    using range0_cover [OF assms(1), of "length devX"] by metis
  have len: "length ?ps = length devX" by simp
  have loop: "predict_loop B (heap s ! model s) (nat (batch_size s)) devX starts [] = Inr ?ps"
    unfolding predict_loop_collects [OF assms(3)] cover [OF len] by simp
  show ?thesis
    using assms(2) by (simp add: predict_def r loop np_vstack_def comp_def)
qed

lemma matches_rows:
  "length (filter (\<lambda>(r, t). map int r = [t]) (zip (map (\<lambda>x. [c x]) X) y)) =
   length (filter (\<lambda>(p, t). int p = t) (zip (map c X) y))"
  by (simp add: zip_map1 filter_map comp_def case_prod_beta)

text \<open>
  C8: for a non-empty dataset with as many labels as examples, a positive batch size and
  a network with at least one class, \<^verbatim>\<open>score\<close> returns a value in \<open>[0, 1]\<close>: the number of
  rows of the result of \<^verbatim>\<open>predict\<close> (one row per example, in input order, holding the
  index of the first maximal logit) that equal the true label, divided by the number of
  examples.
\<close>

theorem score_is_fraction_of_predict:
  assumes "0 < batch_size s" "length X = length y" "X \<noteq> []"
    "\<forall>x \<in> set X. forward B (heap s ! model s) x \<noteq> []"
  shows "\<exists>a p. score B s X y = Inr a \<and> predict B s X = Inr p \<and>
           p = map (\<lambda>x. [first_max (forward B (heap s ! model s) x)]) X \<and>
           a = real (length (filter (\<lambda>(r, t). map int r = [t]) (zip p y))) / real (length X) \<and>
           0 \<le> a \<and> a \<le> 1"
proof -
  let ?c = "\<lambda>x. first_max (forward B (heap s ! model s) x)"
  let ?n = "length (filter (\<lambda>(p, t). int p = t) (zip (map ?c X) y))"
  have sc: "score B s X y = Inr (real ?n / real (length X))"
    unfolding score_def by (rule score_weights_fraction [OF assms])
  have pr: "predict B s X = Inr (map (\<lambda>x. [?c x]) X)"
    by (rule predict_rows [OF assms(1) assms(3) assms(4)])
  have "?n \<le> length (zip (map ?c X) y)" by (rule length_filter_le)
  then have le: "?n \<le> length X" using assms(2) by simp
  have pos: "0 < length X" using assms(3) by simp
  have bound: "real ?n / real (length X) \<le> 1" using le pos by simp
  show ?thesis using sc pr bound by (simp add: matches_rows)
qed

theorem score_is_fraction_of_predict_witness:
  "score toy_backend (toy_trainer\<lparr>heap := [1], batch_size := 2\<rparr>) [0, 1, 2] [1, 1, 0] = Inr (2 / 3) \<and>
   predict toy_backend (toy_trainer\<lparr>heap := [1], batch_size := 2\<rparr>) [0, 1, 2] = Inr [[1], [0], [0]]"
proof -
  let ?s = "toy_trainer\<lparr>heap := [1], batch_size := 2\<rparr>"
  have h1: "0 < batch_size ?s" by (simp add: toy_trainer_def)
  have h2: "length [0, 1, 2 :: nat] = length [1, 1, 0 :: int]" by simp
  have h3: "[0, 1, 2 :: nat] \<noteq> []" by simp
  have h4: "\<forall>x \<in> set [0, 1, 2 :: nat]. forward toy_backend (heap ?s ! model ?s) x \<noteq> []"
    by (simp add: toy_backend_def)
  from score_is_fraction_of_predict [OF h1 h2 h3 h4]
  obtain a p where sc: "score toy_backend ?s [0, 1, 2] [1, 1, 0] = Inr a"
    and pr: "predict toy_backend ?s [0, 1, 2] = Inr p"
    and p: "p = map (\<lambda>x. [first_max (forward toy_backend (heap ?s ! model ?s) x)]) [0, 1, 2]"
    and a: "a = real (length (filter (\<lambda>(r, t). map int r = [t]) (zip p [1, 1, 0]))) / real (length [0, 1, 2 :: nat])"
    by blast
  have p': "p = [[1], [0], [0]]"
    using p by (simp add: toy_backend_def toy_trainer_def first_max_def)
  have a': "a = 2 / 3" using a unfolding p' by simp
  show ?thesis using sc pr p' a' by simp
qed

lemma range0_nonempty:
  assumes "0 < bsz" "0 < n"
  obtains starts where "range0 n bsz = Inr (0 # starts)"
proof -
  have "0 < (n + nat bsz - 1) div nat bsz"
    using assms by (simp add: div_greater_zero_iff)
  then have "[0 ..< (n + nat bsz - 1) div nat bsz] = 0 # [1 ..< (n + nat bsz - 1) div nat bsz]"
    by (simp add: upt_conv_Cons)
  then have "range0 n bsz =
      Inr (0 # map (\<lambda>k. k * nat bsz) [1 ..< (n + nat bsz - 1) div nat bsz])"
    using assms(1) by (simp add: range0_def)
  then show ?thesis using that by blast
qed

text \<open>
  C7. \<^verbatim>\<open>predict_proba\<close> hands \<^verbatim>\<open>F.softmax\<close> a NumPy array, and the call fails. So for
  every non-empty input, whether it spans one batch or several, \<^verbatim>\<open>predict_proba\<close> fails
  on its first batch and returns no probabilities at all.
\<close>

theorem predict_proba_fails:
  assumes "\<forall>rows. softmax B rows = None" "0 < batch_size s" "X \<noteq> []"
  shows "predict_proba B s X = Inl BackendError"
proof -
  have n: "0 < length X" using assms(3) by simp
  obtain starts where "range0 (length X) (batch_size s) = Inr (0 # starts)"
    using range0_nonempty [OF assms(2) n] by blast
  then show ?thesis using assms(1) by (simp add: predict_proba_def)
qed

theorem predict_proba_fails_witness:
  "predict_proba toy_backend (toy_trainer\<lparr>heap := [1], batch_size := 2\<rparr>) [0, 1, 2] = Inl BackendError \<and>
   predict_proba toy_backend (toy_trainer\<lparr>heap := [1], batch_size := 2\<rparr>) [0] = Inl BackendError"
proof -
  let ?s = "toy_trainer\<lparr>heap := [1], batch_size := 2\<rparr>"
  have h1: "\<forall>rows. softmax toy_backend rows = None" by (simp add: toy_backend_def)
  have h2: "0 < batch_size ?s" by (simp add: toy_trainer_def)
  have a: "predict_proba toy_backend ?s [0, 1, 2] = Inl BackendError"
    by (rule predict_proba_fails [OF h1 h2]) simp
  have b: "predict_proba toy_backend ?s [0] = Inl BackendError"
    by (rule predict_proba_fails [OF h1 h2]) simp
  show ?thesis by (rule conjI [OF a b])
qed

section \<open>Properties of fit\<close>

lemmas toy_run_defs =
  toy_backend_def toy_trainer_def fit_def fit_init_def fit_body_def trainepoch_def score_def
  score_weights_def prepare_split_def truthy_split_def truthy_data_def range0_def
  batch_slice_def gather_def torch_max1_def eq_sum_def first_max_def deepcopy_def

text \<open>
  C5 on a trainer with \<^verbatim>\<open>max_epoch = 2\<close> and \<^verbatim>\<open>epoch_size = 1\<close>: the loop condition
  \<^verbatim>\<open>self.nepoch <= self.max_epoch\<close> lets a third epoch start, and \<^verbatim>\<open>fit\<close> ends with
  \<^verbatim>\<open>nepoch = 3\<close>, three passes over the training data.
\<close>

theorem fit_exceeds_max_epoch:
  "fit toy_backend (toy_trainer\<lparr>max_epoch := 2, tenacity := 5\<rparr>) [5] [0] (Some ([0, 1], [1, 1])) None True
   = Some (Inr (1, \<lparr>heap = [3, 1, 2], model = 2, optimizer = 3, rng = 3, nepoch = 3,
                     batch_size = 1, tenacity = 5, epoch_size = 1, max_epoch = 2\<rparr>))"
  by (simp add: toy_run_defs fit_loop.simps)

section \<open>The loop of fit along a trace\<close>

lemma fit_body_follows:
  assumes r: "follows st p"
    and tp: "train_passes B (nat (epoch_size (self st))) trainX trainy (batch_size (self st)) (live (self st)) = Inr wog"
    and sc: "score_weights B (fst wog) (batch_size (self st)) devX devy = Inr a"
  shows "\<exists>st1. fit_body B es trainX trainy devX devy st = Inr st1 \<and>
           follows st1 (progress_step es (tenacity (self st)) (a, fst wog) p) \<and>
           same_config (self st) (self st1) \<and> live (self st1) = wog"
proof -
  obtain w opt g where wog: "wog = (w, opt, g)" by (cases wog) auto
  let ?s = "self st"
  let ?s1 = "?s\<lparr>heap := (heap ?s)[model ?s := w], optimizer := opt, rng := g,
                  nepoch := nepoch ?s + epoch_size ?s\<rparr>"
  have m: "model ?s < length (heap ?s)" using r by (simp add: follows_def)
  have ba: "bestaccuracy st = best p" using r by (simp add: follows_def)
  have te: "trainepoch B ?s trainX trainy (epoch_size ?s) = Inr ?s1"
    using tp by (simp add: trainepoch_def live_def wog)
  have sc1: "score B ?s1 devX devy = Inr a"
    using sc m by (simp add: score_def wog)
  have ne: "nepoch ?s + epoch_size ?s = int (Suc (iters p)) * epoch_size ?s"
    using r by (simp add: follows_def algebra_simps)
  show ?thesis
  proof (cases "best p < a")
    case True
    let ?st1 = "st\<lparr>self := ?s1\<lparr>heap := heap ?s1 @ [heap ?s1 ! model ?s1]\<rparr>, bestaccuracy := a,
                 bestmodel := Some (length (heap ?s1))\<rparr>"
    have fb: "fit_body B es trainX trainy devX devy st = Inr ?st1"
      using True by (simp add: fit_body_def te sc1 deepcopy_def ba)
    have "follows ?st1 (progress_step es (tenacity ?s) (a, fst wog) p)"
      using True r m ne by (simp add: follows_def progress_step_def wog nth_append)
    moreover have "same_config ?s (self ?st1)" by (simp add: same_config_def)
    moreover have "live (self ?st1) = wog" using m by (simp add: live_def wog nth_append)
    ultimately show ?thesis using fb by blast
  next
    case False
    let ?st1 = "if es then st\<lparr>self := ?s1,
                    stop_train := (if early_stop_count st \<ge> tenacity ?s1 then True else stop_train st),
                    early_stop_count := early_stop_count st + 1\<rparr> else st\<lparr>self := ?s1\<rparr>"
    have fb: "fit_body B es trainX trainy devX devy st = Inr ?st1"
      using False by (simp add: fit_body_def te sc1 ba)
    have "follows ?st1 (progress_step es (tenacity ?s) (a, fst wog) p)"
      using False r m ne
      by (auto simp: follows_def progress_step_def wog split: option.splits)
    moreover have "same_config ?s (self ?st1)" by (simp add: same_config_def)
    moreover have "live (self ?st1) = wog" using m by (simp add: live_def wog)
    ultimately show ?thesis using fb by blast
  qed
qed


lemma fit_loop_exit:
  assumes "follows st p" "loop_exit (max_epoch (self st)) (epoch_size (self st)) p"
  shows "fit_loop B es trainX trainy devX devy st = Some (Inr st)"
  using assms by (subst fit_loop.simps) (auto simp: follows_def loop_exit_def)

lemma fit_loop_continue:
  assumes "follows st p" "\<not> loop_exit (max_epoch (self st)) (epoch_size (self st)) p"
    "fit_body B es trainX trainy devX devy st = Inr st1"
  shows "fit_loop B es trainX trainy devX devy st = fit_loop B es trainX trainy devX devy st1"
  using assms by (subst fit_loop.simps) (auto simp: follows_def loop_exit_def)

lemma run_trace_Cons_exit:
  "loop_exit mx esz p \<Longrightarrow> run_trace es ten mx esz p (e # tr) = p"
  by (auto simp: loop_exit_def)

lemma run_trace_Cons_continue:
  "\<not> loop_exit mx esz p \<Longrightarrow>
   run_trace es ten mx esz p (e # tr) = run_trace es ten mx esz (progress_step es ten e p) tr"
  by (auto simp: loop_exit_def)

declare run_trace.simps(2) [simp del]

lemma epoch_trace_Suc:
  assumes "epoch_trace B trainX trainy esz bsz devX devy (Suc n) wog = Inr tr"
  obtains wog' a tr' where
    "train_passes B (nat esz) trainX trainy bsz wog = Inr wog'"
    "score_weights B (fst wog') bsz devX devy = Inr a"
    "epoch_trace B trainX trainy esz bsz devX devy n wog' = Inr tr'"
    "tr = (a, fst wog') # tr'"
  using assms by (auto split: sum.splits)

declare epoch_trace.simps(2) [simp del]

lemma fit_loop_run_trace:
  assumes "epoch_trace B trainX trainy (epoch_size (self st)) (batch_size (self st)) devX devy n
             (live (self st)) = Inr tr"
    and "follows st p"
    and "loop_exit (max_epoch (self st)) (epoch_size (self st))
           (run_trace es (tenacity (self st)) (max_epoch (self st)) (epoch_size (self st)) p tr)"
  shows "\<exists>st'. fit_loop B es trainX trainy devX devy st = Some (Inr st') \<and>
           follows st' (run_trace es (tenacity (self st)) (max_epoch (self st)) (epoch_size (self st)) p tr) \<and>
           same_config (self st) (self st')"
  using assms
proof (induction n arbitrary: st p tr)
  case 0
  then have tr: "tr = []" by simp
  have "fit_loop B es trainX trainy devX devy st = Some (Inr st)"
    using fit_loop_exit [OF "0.prems"(2)] "0.prems"(3) unfolding tr by simp
  then show ?case using "0.prems"(2) by (simp add: tr same_config_def)
next
  case (Suc n)
  let ?esz = "epoch_size (self st)" and ?bsz = "batch_size (self st)"
  let ?ten = "tenacity (self st)" and ?mx = "max_epoch (self st)"
  from Suc.prems(1) obtain wog a tr' where
    tp: "train_passes B (nat ?esz) trainX trainy ?bsz (live (self st)) = Inr wog"
    and sc: "score_weights B (fst wog) ?bsz devX devy = Inr a"
    and et: "epoch_trace B trainX trainy ?esz ?bsz devX devy n wog = Inr tr'"
    and tr: "tr = (a, fst wog) # tr'"
    by (rule epoch_trace_Suc)
  show ?case
  proof (cases "loop_exit ?mx ?esz p")
    case True
    have "fit_loop B es trainX trainy devX devy st = Some (Inr st)"
      by (rule fit_loop_exit [OF Suc.prems(2) True])
    moreover have "run_trace es ?ten ?mx ?esz p tr = p"
      unfolding tr by (rule run_trace_Cons_exit [OF True])
    ultimately show ?thesis
      using Suc.prems(2) by (simp add: same_config_def)
  next
    case False
    from fit_body_follows [OF Suc.prems(2) tp sc, of es]
    obtain st1 where fb: "fit_body B es trainX trainy devX devy st = Inr st1"
      and r1: "follows st1 (progress_step es ?ten (a, fst wog) p)"
      and cf: "same_config (self st) (self st1)"
      and lv: "live (self st1) = wog"
      by blast
    have cfs: "epoch_size (self st1) = ?esz" "batch_size (self st1) = ?bsz"
      "tenacity (self st1) = ?ten" "max_epoch (self st1) = ?mx"
      using cf by (simp_all add: same_config_def)
    have rt: "run_trace es ?ten ?mx ?esz p tr =
        run_trace es ?ten ?mx ?esz (progress_step es ?ten (a, fst wog) p) tr'"
      unfolding tr by (rule run_trace_Cons_continue [OF False])
    have et1: "epoch_trace B trainX trainy (epoch_size (self st1)) (batch_size (self st1)) devX devy n
             (live (self st1)) = Inr tr'"
      using et by (simp add: cfs lv)
    have ex1: "loop_exit (max_epoch (self st1)) (epoch_size (self st1))
           (run_trace es (tenacity (self st1)) (max_epoch (self st1)) (epoch_size (self st1))
              (progress_step es ?ten (a, fst wog) p) tr')"
      using Suc.prems(3) by (simp add: cfs rt)
    from Suc.IH [OF et1 r1 ex1]
    obtain st' where
      fl: "fit_loop B es trainX trainy devX devy st1 = Some (Inr st')"
      and r': "follows st' (run_trace es ?ten ?mx ?esz (progress_step es ?ten (a, fst wog) p) tr')"
      and cf': "same_config (self st1) (self st')"
      by (auto simp: cfs)
    have "fit_loop B es trainX trainy devX devy st = Some (Inr st')"
      using fit_loop_continue [OF Suc.prems(2) False fb] fl by simp
    moreover have "same_config (self st) (self st')"
      using cf cf' by (simp add: same_config_def)
    ultimately show ?thesis using r' by (simp add: rt)
  qed
qed

lemma score_weights_nonneg: "score_weights B w bsz devX devy = Inr a \<Longrightarrow> 0 \<le> a"
  by (auto simp: score_weights_def split: sum.splits if_splits)

lemma epoch_trace_entries:
  "epoch_trace B trainX trainy esz bsz devX devy n wog = Inr tr \<Longrightarrow>
   length tr = n \<and> (\<forall>e \<in> set tr. score_weights B (snd e) bsz devX devy = Inr (fst e) \<and> 0 \<le> fst e)"
proof (induction n arbitrary: wog tr)
  case 0
  then show ?case by simp
next
  case (Suc n)
  from Suc.prems obtain wog' a tr' where
    sc: "score_weights B (fst wog') bsz devX devy = Inr a"
    and et: "epoch_trace B trainX trainy esz bsz devX devy n wog' = Inr tr'"
    and tr: "tr = (a, fst wog') # tr'"
    by (rule epoch_trace_Suc)
  show ?case
    using Suc.IH [OF et] sc score_weights_nonneg [OF sc] by (simp add: tr)
qed

lemma follows_init:
  "model s < length (heap s) \<Longrightarrow> follows (fit_init (s\<lparr>nepoch := 0, rng := g\<rparr>)) progress_init"
  by (simp add: follows_def fit_init_def progress_init_def)

lemma fit_run_trace:
  assumes ps: "prepare_split B (rng s) X y validation_data validation_split = Inr (trainX, trainy, devX, devy, g)"
    and m: "model s < length (heap s)"
    and et: "epoch_trace B trainX trainy (epoch_size s) (batch_size s) devX devy n
               (heap s ! model s, optimizer s, g) = Inr tr"
    and p': "p' = run_trace es (tenacity s) (max_epoch s) (epoch_size s) progress_init tr"
    and ex: "loop_exit (max_epoch s) (epoch_size s) p'"
    and sn: "snap p' = Some w"
  shows "\<exists>s'. fit B s X y validation_data validation_split es = Some (Inr (best p', s')) \<and>
           heap s' ! model s' = w \<and> nepoch s' = int (iters p') * epoch_size s \<and>
           model s' \<noteq> model s \<and> model s' < length (heap s')"
proof -
  let ?st = "fit_init (s\<lparr>nepoch := 0, rng := g\<rparr>)"
  have sf: "self ?st = s\<lparr>nepoch := 0, rng := g\<rparr>" by (simp add: fit_init_def)
  have et0: "epoch_trace B trainX trainy (epoch_size (self ?st)) (batch_size (self ?st)) devX devy n
               (live (self ?st)) = Inr tr"
    using et by (simp add: sf live_def)
  have ex0: "loop_exit (max_epoch (self ?st)) (epoch_size (self ?st))
           (run_trace es (tenacity (self ?st)) (max_epoch (self ?st)) (epoch_size (self ?st)) progress_init tr)"
    using ex by (simp add: sf p')
  from fit_loop_run_trace [OF et0 follows_init [OF m] ex0]
  obtain st' where fl: "fit_loop B es trainX trainy devX devy ?st = Some (Inr st')"
    and r: "follows st' p'" and cf: "same_config (self ?st) (self st')"
    by (auto simp: sf p')
  from r sn obtain b where b: "bestmodel st' = Some b" "b < length (heap (self st'))"
    "b \<noteq> model (self st')" "heap (self st') ! b = w"
    by (auto simp: follows_def)
  have "fit B s X y validation_data validation_split es = Some (Inr (best p', (self st')\<lparr>model := b\<rparr>))"
    using r b(1) by (simp add: fit_def ps fl follows_def)
  moreover have "nepoch (self st') = int (iters p') * epoch_size s"
    using r cf by (simp add: follows_def same_config_def sf)
  moreover have "model (self st') = model s" using cf by (simp add: same_config_def sf)
  ultimately show ?thesis using b by auto
qed

lemma run_trace_exhaust:
  "loop_exit mx esz (run_trace es ten mx esz p tr) \<or>
   iters (run_trace es ten mx esz p tr) = iters p + length tr"
proof (induction tr arbitrary: p)
  case Nil
  show ?case by simp
next
  case (Cons e tr)
  show ?case
  proof (cases "loop_exit mx esz p")
    case True
    then show ?thesis by (simp add: run_trace_Cons_exit)
  next
    case False
    have "iters (progress_step es ten e p) = Suc (iters p)" by (simp add: progress_step_def)
    then show ?thesis
      using Cons.IH [of "progress_step es ten e p"] by (simp add: run_trace_Cons_continue [OF False])
  qed
qed

lemma progress_step_best:
  "best (progress_step es ten e p) = max (best p) (fst e)"
  "iters (progress_step es ten e p) = Suc (iters p)"
  by (auto simp: progress_step_def)

lemma progress_step_snap:
  "best p < fst e \<Longrightarrow> snap (progress_step es ten e p) = Some (snd e)"
  "\<not> best p < fst e \<Longrightarrow> snap (progress_step es ten e p) = snap p"
  by (auto simp: progress_step_def)

lemma run_trace_best:
  fixes tr :: "(real \<times> 'w) list" and es :: bool and ten mx esz :: int
  defines "q \<equiv> \<lambda>p tr. run_trace es ten mx esz p tr"
  shows "iters p \<le> iters (q p tr) \<and> iters (q p tr) - iters p \<le> length tr \<and>
     best p \<le> best (q p tr) \<and>
     (\<forall>i < iters (q p tr) - iters p. fst (tr ! i) \<le> best (q p tr)) \<and>
     ((best (q p tr) = best p \<and> snap (q p tr) = snap p) \<or>
      (\<exists>j w. j < iters (q p tr) - iters p \<and> tr ! j = (best (q p tr), w) \<and> snap (q p tr) = Some w \<and>
             best p < best (q p tr) \<and> (\<forall>i < j. fst (tr ! i) < best (q p tr))))"
proof (induction tr arbitrary: p)
  case Nil
  show ?case by (simp add: q_def)
next
  case (Cons e tr)
  show ?case
  proof (cases "loop_exit mx esz p")
    case True
    then show ?thesis by (simp add: q_def run_trace_Cons_exit)
  next
    case False
    let ?p1 = "progress_step es ten e p"
    let ?p' = "q ?p1 tr"
    have q: "q p (e # tr) = ?p'" unfolding q_def by (rule run_trace_Cons_continue [OF False])
    have it: "iters ?p1 = Suc (iters p)" and b1: "best ?p1 = max (best p) (fst e)"
      by (simp_all add: progress_step_best)
    from Cons.IH [of ?p1]
    have i1: "iters ?p1 \<le> iters ?p'" and i2: "iters ?p' - iters ?p1 \<le> length tr"
      and i3: "best ?p1 \<le> best ?p'"
      and i4: "\<forall>i < iters ?p' - iters ?p1. fst (tr ! i) \<le> best ?p'"
      and i5: "(best ?p' = best ?p1 \<and> snap ?p' = snap ?p1) \<or>
         (\<exists>j w. j < iters ?p' - iters ?p1 \<and> tr ! j = (best ?p', w) \<and> snap ?p' = Some w \<and>
             best ?p1 < best ?p' \<and> (\<forall>i < j. fst (tr ! i) < best ?p'))"
      by blast+
    have k: "iters ?p' - iters p = Suc (iters ?p' - iters ?p1)" using i1 it by simp
    have c1: "iters p \<le> iters ?p'" using i1 it by simp
    have c2: "iters ?p' - iters p \<le> length (e # tr)" using i2 k by simp
    have c3: "best p \<le> best ?p'" using i3 b1 by simp
    have c4: "\<forall>i < iters ?p' - iters p. fst ((e # tr) ! i) \<le> best ?p'"
    proof (intro allI impI)
      fix i assume "i < iters ?p' - iters p"
      then show "fst ((e # tr) ! i) \<le> best ?p'"
        using i4 i3 b1 k by (cases i) auto
    qed
    have c5: "(best ?p' = best p \<and> snap ?p' = snap p) \<or>
      (\<exists>j w. j < iters ?p' - iters p \<and> (e # tr) ! j = (best ?p', w) \<and> snap ?p' = Some w \<and>
             best p < best ?p' \<and> (\<forall>i < j. fst ((e # tr) ! i) < best ?p'))"
      using i5
    proof
      assume same: "best ?p' = best ?p1 \<and> snap ?p' = snap ?p1"
      show ?thesis
      proof (cases "best p < fst e")
        case True
        then have "snap ?p' = Some (snd e)" "best ?p' = fst e"
          using same b1 by (simp_all add: progress_step_snap)
        then have "0 < iters ?p' - iters p \<and> (e # tr) ! 0 = (best ?p', snd e) \<and> snap ?p' = Some (snd e) \<and>
             best p < best ?p' \<and> (\<forall>i < 0. fst ((e # tr) ! i) < best ?p')"
          using True k by simp
        then show ?thesis by blast
      next
        case False
        then show ?thesis using same b1 by (simp add: progress_step_snap)
      qed
    next
      assume "\<exists>j w. j < iters ?p' - iters ?p1 \<and> tr ! j = (best ?p', w) \<and> snap ?p' = Some w \<and>
             best ?p1 < best ?p' \<and> (\<forall>i < j. fst (tr ! i) < best ?p')"
      then obtain j w where j: "j < iters ?p' - iters ?p1" "tr ! j = (best ?p', w)" "snap ?p' = Some w"
        "best ?p1 < best ?p'" "\<forall>i < j. fst (tr ! i) < best ?p'"
        by blast
      have "\<forall>i < Suc j. fst ((e # tr) ! i) < best ?p'"
      proof (intro allI impI)
        fix i assume "i < Suc j"
        then show "fst ((e # tr) ! i) < best ?p'"
          using j(4,5) b1 by (cases i) auto
      qed
      moreover have "Suc j < iters ?p' - iters p" using j(1) k by simp
      moreover have "(e # tr) ! Suc j = (best ?p', w)" using j(2) by simp
      moreover have "best p < best ?p'" using j(4) b1 by simp
      ultimately show ?thesis using j(3) by blast
    qed
    show ?thesis unfolding q using c1 c2 c3 c4 c5 by blast
  qed
qed

lemma guard_le:
  fixes esz mx :: int
  assumes "0 \<le> mx" "int n * esz \<le> mx" "i \<le> n"
  shows "int i * esz \<le> mx"
proof (cases "0 \<le> esz")
  case True
  have "int i * esz \<le> int n * esz" using assms(3) True by (simp add: mult_right_mono)
  then show ?thesis using assms(2) by simp
next
  case False
  then have "int i * esz \<le> 0" by (simp add: mult_nonneg_nonpos)
  then show ?thesis using assms(1) by simp
qed

lemma run_trace_improving:
  assumes "sorted_wrt (<) (map fst inc)" "\<forall>e \<in> set inc. best p < fst e" "inc \<noteq> []"
    "\<not> stopped p" "\<forall>i < length inc. int (iters p + i) * esz \<le> mx"
  shows "run_trace es ten mx esz p (inc @ rest) =
         run_trace es ten mx esz
           (p\<lparr>iters := iters p + length inc, best := fst (last inc), snap := Some (snd (last inc))\<rparr>) rest"
  using assms
proof (induction inc arbitrary: p)
  case Nil
  then show ?case by simp
next
  case (Cons e inc)
  let ?p1 = "p\<lparr>iters := Suc (iters p), best := fst e, snap := Some (snd e)\<rparr>"
  have ne: "\<not> loop_exit mx esz p"
    using Cons.prems(4) Cons.prems(5) by (auto simp: loop_exit_def)
  have st: "progress_step es ten e p = ?p1"
    using Cons.prems(2) by (simp add: progress_step_def)
  have rt: "run_trace es ten mx esz p ((e # inc) @ rest) = run_trace es ten mx esz ?p1 (inc @ rest)"
    using run_trace_Cons_continue [OF ne, of es ten e "inc @ rest"] by (simp add: st)
  show ?case
  proof (cases "inc = []")
    case True
    then show ?thesis using rt by simp
  next
    case False
    have a1: "sorted_wrt (<) (map fst inc)" using Cons.prems(1) by simp
    have a2: "\<forall>e' \<in> set inc. best ?p1 < fst e'" using Cons.prems(1) by auto
    have a4: "\<not> stopped ?p1" using Cons.prems(4) by simp
    have a5: "\<forall>i < length inc. int (iters ?p1 + i) * esz \<le> mx"
    proof (intro allI impI)
      fix i assume "i < length inc"
      then have "Suc i < length (e # inc)" by simp
      then have "int (iters p + Suc i) * esz \<le> mx" using Cons.prems(5) by blast
      then show "int (iters ?p1 + i) * esz \<le> mx" by simp
    qed
    show ?thesis
      using Cons.IH [OF a1 a2 False a4 a5] rt False by simp
  qed
qed

lemma run_trace_plateau:
  assumes "length flat = Suc d" "d = nat (ten - fails p)"
    "\<forall>e \<in> set flat. fst e \<le> best p" "\<not> stopped p"
    "\<forall>i \<le> d. int (iters p + i) * esz \<le> mx"
  shows "run_trace True ten mx esz p flat =
         p\<lparr>iters := iters p + Suc d, stopped := True, fails := fails p + int (Suc d)\<rparr>"
  using assms
proof (induction d arbitrary: p flat)
  case 0
  then obtain e where flat: "flat = [e]" by (cases flat) auto
  have ne: "\<not> loop_exit mx esz p" using "0.prems"(4,5) by (auto simp: loop_exit_def)
  have "progress_step True ten e p = p\<lparr>iters := Suc (iters p), stopped := True, fails := fails p + 1\<rparr>"
    using "0.prems"(2,3) by (auto simp: progress_step_def flat)
  then show ?case
    using run_trace_Cons_continue [OF ne, of True ten e "[]"] by (simp add: flat)
next
  case (Suc d)
  then obtain e flat' where flat: "flat = e # flat'" and len: "length flat' = Suc d"
    by (cases flat) auto
  let ?p1 = "p\<lparr>iters := Suc (iters p), fails := fails p + 1\<rparr>"
  have ne: "\<not> loop_exit mx esz p" using Suc.prems(4,5) by (auto simp: loop_exit_def)
  have lt: "fails p < ten" using Suc.prems(2) by simp
  have st: "progress_step True ten e p = ?p1"
    using Suc.prems(3,4) lt by (auto simp: progress_step_def flat)
  have rt: "run_trace True ten mx esz p flat = run_trace True ten mx esz ?p1 flat'"
    using run_trace_Cons_continue [OF ne, of True ten e flat'] by (simp add: flat st)
  have a2: "d = nat (ten - fails ?p1)" using Suc.prems(2) by simp
  have a3: "\<forall>e \<in> set flat'. fst e \<le> best ?p1" using Suc.prems(3) by (simp add: flat)
  have a4: "\<not> stopped ?p1" using Suc.prems(4) by simp
  have a5: "\<forall>i \<le> d. int (iters ?p1 + i) * esz \<le> mx"
  proof (intro allI impI)
    fix i assume "i \<le> d"
    then have "Suc i \<le> Suc d" by simp
    then have "int (iters p + Suc i) * esz \<le> mx" using Suc.prems(5) by blast
    then show "int (iters ?p1 + i) * esz \<le> mx" by simp
  qed
  show ?case
    using Suc.IH [OF len a2 a3 a4 a5] rt by simp
qed


lemma max_iterations_exceed:
  fixes mx esz :: int
  assumes "0 < esz" "0 \<le> mx"
  shows "mx < int (nat (mx div esz) + 1) * esz"
proof -
  have d: "0 \<le> mx div esz" using assms by (simp add: pos_imp_zdiv_nonneg_iff)
  have "mx mod esz < esz" using assms(1) by simp
  moreover have "mx = (mx div esz) * esz + mx mod esz" by simp
  ultimately have "mx < (mx div esz) * esz + esz" by linarith
  then show ?thesis using d by (simp add: algebra_simps)
qed

lemma fit_total:
  fixes B :: "('w, 'x, 'l::linorder, 'o, 'r) backend"
  assumes ps: "prepare_split B (rng s) X y validation_data validation_split =
                 Inr (trainX, trainy, devX, devy, g)"
    and m: "model s < length (heap s)"
    and esz: "0 < epoch_size s" and mx: "0 \<le> max_epoch s"
    and et: "epoch_trace B trainX trainy (epoch_size s) (batch_size s) devX devy
               (nat (max_epoch s div epoch_size s) + 1) (heap s ! model s, optimizer s, g) = Inr tr"
  shows "\<exists>acc s' k j. fit B s X y validation_data validation_split es = Some (Inr (acc, s')) \<and>
           j < k \<and> k \<le> length tr \<and> nepoch s' = int k * epoch_size s \<and>
           tr ! j = (acc, heap s' ! model s') \<and>
           (\<forall>i < k. fst (tr ! i) \<le> acc) \<and> (\<forall>i < j. fst (tr ! i) < acc) \<and>
           model s' \<noteq> model s \<and> model s' < length (heap s') \<and> 0 \<le> acc"
proof -
  let ?ten = "tenacity s" and ?mx = "max_epoch s" and ?esz = "epoch_size s"
  let ?n = "nat (?mx div ?esz) + 1"
  let ?p0 = "progress_init :: 'w progress"
  define p' where "p' = run_trace es ?ten ?mx ?esz ?p0 tr"
  have len: "length tr = ?n" and nn: "\<forall>e \<in> set tr. 0 \<le> fst e"
    using epoch_trace_entries [OF et] by simp_all
  obtain e tr' where tr: "tr = e # tr'" using len by (cases tr) auto
  have ne0: "\<not> loop_exit ?mx ?esz ?p0" using mx by (simp add: loop_exit_def progress_init_def)
  have p1: "p' = run_trace es ?ten ?mx ?esz (progress_step es ?ten e ?p0) tr'"
    unfolding p'_def tr by (rule run_trace_Cons_continue [OF ne0])
  have "iters (progress_step es ?ten e ?p0) \<le> iters p'"
    unfolding p1 using run_trace_best [of "progress_step es ?ten e ?p0" es ?ten ?mx ?esz tr'] by blast
  then have k1: "1 \<le> iters p'" by (simp add: progress_step_best progress_init_def)
  have ex: "loop_exit ?mx ?esz p'"
  proof -
    from run_trace_exhaust [of ?mx ?esz es ?ten ?p0 tr]
    have "loop_exit ?mx ?esz p' \<or> iters p' = length tr"
      by (simp add: p'_def progress_init_def)
    then show ?thesis
    proof
      assume "iters p' = length tr"
      then have "?mx < int (iters p') * ?esz"
        using max_iterations_exceed [OF esz mx] len by simp
      then show ?thesis by (simp add: loop_exit_def)
    qed simp
  qed
  from run_trace_best [of ?p0 es ?ten ?mx ?esz tr]
  have c2: "iters p' \<le> length tr"
    and c4: "\<forall>i < iters p'. fst (tr ! i) \<le> best p'"
    and c5: "(best p' = best ?p0 \<and> snap p' = snap ?p0) \<or>
      (\<exists>j w. j < iters p' \<and> tr ! j = (best p', w) \<and> snap p' = Some w \<and>
             best ?p0 < best p' \<and> (\<forall>i < j. fst (tr ! i) < best p'))"
    by (simp_all add: p'_def progress_init_def)
  have "fst (tr ! 0) \<le> best p'" using c4 k1 by simp
  moreover have "0 \<le> fst (tr ! 0)" using nn by (simp add: tr)
  ultimately have bp: "0 \<le> best p'" by simp
  then have "best p' \<noteq> best ?p0" by (simp add: progress_init_def)
  with c5 obtain j w where j: "j < iters p'" "tr ! j = (best p', w)" "snap p' = Some w"
    "\<forall>i < j. fst (tr ! i) < best p'"
    by blast
  from fit_run_trace [OF ps m et p'_def ex j(3)]
  obtain s' where s': "fit B s X y validation_data validation_split es = Some (Inr (best p', s'))"
    "heap s' ! model s' = w" "nepoch s' = int (iters p') * ?esz"
    "model s' \<noteq> model s" "model s' < length (heap s')"
    by blast
  have "fit B s X y validation_data validation_split es = Some (Inr (best p', s')) \<and>
           j < iters p' \<and> iters p' \<le> length tr \<and> nepoch s' = int (iters p') * ?esz \<and>
           tr ! j = (best p', heap s' ! model s') \<and>
           (\<forall>i < iters p'. fst (tr ! i) \<le> best p') \<and> (\<forall>i < j. fst (tr ! i) < best p') \<and>
           model s' \<noteq> model s \<and> model s' < length (heap s') \<and> 0 \<le> best p'"
    using s' j c2 c4 bp by simp
  then show ?thesis by blast
qed

lemma train_batches_error:
  "train_batches B X y bs perm starts wo = Inl e \<Longrightarrow> e \<in> {IndexError, BackendError}"
  by (induction starts arbitrary: wo)
     (auto simp: Let_def gather_def split: sum.splits option.splits if_splits)

lemma train_passes_error:
  "train_passes B n X y bsz wog = Inl e \<Longrightarrow> e \<in> {ValueError, IndexError, BackendError}"
proof (induction n arbitrary: wog)
  case 0
  then show ?case by simp
next
  case (Suc n)
  obtain w opt g where wog: "wog = (w, opt, g)" by (cases wog) auto
  show ?case
    using Suc.prems Suc.IH
    by (auto simp: wog range0_def split: prod.splits sum.splits if_splits dest: train_batches_error)
qed

lemma score_loop_error:
  "score_loop B w bs devX devy starts c = Inl e \<Longrightarrow> e \<in> {IndexError, RuntimeError}"
  by (induction starts arbitrary: c)
     (auto simp: Let_def torch_max1_def eq_sum_def split: sum.splits if_splits)

lemma score_weights_error:
  "score_weights B w bsz devX devy = Inl e \<Longrightarrow>
   e \<in> {ValueError, IndexError, RuntimeError, ZeroDivisionError}"
  by (auto simp: score_weights_def range0_def split: sum.splits if_splits dest: score_loop_error)

lemma fit_body_error:
  "fit_body B es trainX trainy devX devy st = Inl e \<Longrightarrow> e \<noteq> UnboundLocalError"
  by (auto simp: fit_body_def trainepoch_def score_def deepcopy_def
           split: sum.splits prod.splits if_splits
           dest: train_passes_error score_weights_error)

lemma prepare_split_error:
  "prepare_split B g X y validation_data validation_split = Inl e \<Longrightarrow> e \<noteq> UnboundLocalError"
  by (auto simp: prepare_split_def gather_def Let_def
           split: option.splits prod.splits sum.splits if_splits)

lemma fit_body_score:
  assumes "fit_body B es trainX trainy devX devy st = Inr st1"
  shows "(bestaccuracy st < 0 \<longrightarrow> bestmodel st1 \<noteq> None \<and> 0 \<le> bestaccuracy st1) \<and>
         (bestmodel st \<noteq> None \<and> 0 \<le> bestaccuracy st \<longrightarrow> bestmodel st1 \<noteq> None \<and> 0 \<le> bestaccuracy st1)"
  using assms
  by (auto simp: fit_body_def score_def deepcopy_def
           split: sum.splits prod.splits if_splits dest: score_weights_nonneg)

lemma fit_loop_keeps_bestmodel:
  assumes "fit_loop B es trainX trainy devX devy st = Some r"
  shows "r \<noteq> Inl UnboundLocalError \<and>
         (bestmodel st \<noteq> None \<and> 0 \<le> bestaccuracy st \<longrightarrow>
            (\<forall>st'. r = Inr st' \<longrightarrow> bestmodel st' \<noteq> None \<and> 0 \<le> bestaccuracy st'))"
proof (induction rule: fit_loop.raw_induct [OF _ assms])
  case (1 loop B es trainX trainy devX devy st r)
  show ?case
  proof (cases "\<not> stop_train st \<and> nepoch (self st) \<le> max_epoch (self st)")
    case False
    then show ?thesis using "1.hyps" by auto
  next
    case True
    show ?thesis
    proof (cases "fit_body B es trainX trainy devX devy st")
      case (Inl e)
      then show ?thesis using "1.hyps" True fit_body_error [OF Inl] by auto
    next
      case (Inr st1)
      then have "loop B es trainX trainy devX devy st1 = Some r" using "1.hyps" True by simp
      from "1.IH" [OF this] fit_body_score [OF Inr]
      show ?thesis by blast
    qed
  qed
qed

lemma fit_body_frame:
  assumes "fit_body B es trainX trainy devX devy st = Inr st1"
    and "b < length (heap (self st))" "b \<noteq> model (self st)"
  shows "heap (self st1) ! b = heap (self st) ! b \<and> model (self st1) = model (self st)"
  using assms
  by (auto simp: fit_body_def trainepoch_def deepcopy_def nth_append
           split: sum.splits prod.splits if_splits)


lemma toy_trace:
  "epoch_trace toy_backend [5] [0] 1 1 [0, 1] [1, 1] 4 (0, 0, 0) =
     Inr [(1 / 2, 1), (1, 2), (1, 3), (1, 4)]"
  by (simp add: epoch_trace.simps eval_nat_numeral toy_backend_def score_weights_def range0_def
        batch_slice_def gather_def torch_max1_def eq_sum_def first_max_def)


lemma toy_trace3:
  "epoch_trace toy_backend [5] [0] 1 1 [0, 2] [1, 1] 3 (0, 0, 0) =
     Inr [(1 / 2, 1), (1 / 2, 2), (1, 3)]"
  by (simp add: epoch_trace.simps eval_nat_numeral toy_backend_def score_weights_def range0_def
        batch_slice_def gather_def torch_max1_def eq_sum_def first_max_def)


lemma run_trace_fails:
  fixes tr :: "(real \<times> 'w) list" and ten mx esz :: int
  defines "q \<equiv> \<lambda>p tr. run_trace True ten mx esz p tr"
  assumes "0 \<le> fails p" "stopped p \<longleftrightarrow> 0 < fails p \<and> ten < fails p"
  shows "fails (q p tr) = fails p + int (failures (best p) (map fst (take (iters (q p tr) - iters p) tr))) \<and>
         (stopped (q p tr) \<longleftrightarrow> 0 < fails (q p tr) \<and> ten < fails (q p tr))"
  using assms(2,3)
proof (induction tr arbitrary: p)
  case Nil
  then show ?case by (simp add: q_def)
next
  case (Cons e tr)
  show ?case
  proof (cases "loop_exit mx esz p")
    case True
    then show ?thesis using Cons.prems by (simp add: q_def run_trace_Cons_exit)
  next
    case False
    let ?p1 = "progress_step True ten e p"
    let ?p' = "q ?p1 tr"
    have q: "q p (e # tr) = ?p'" unfolding q_def by (rule run_trace_Cons_continue [OF False])
    have ns: "\<not> stopped p" using False by (simp add: loop_exit_def)
    have it: "iters ?p1 = Suc (iters p)" by (simp add: progress_step_best)
    have le: "iters ?p1 \<le> iters ?p'"
      using run_trace_best [of ?p1 True ten mx esz tr] by (simp add: q_def)
    have k: "iters ?p' - iters p = Suc (iters ?p' - iters ?p1)" using le it by simp
    have f1: "0 \<le> fails ?p1" using Cons.prems(1) by (simp add: progress_step_def)
    have s1: "stopped ?p1 \<longleftrightarrow> 0 < fails ?p1 \<and> ten < fails ?p1"
      using Cons.prems ns by (auto simp: progress_step_def)
    have step: "fails ?p1 + int (failures (best ?p1) xs) =
                fails p + int (failures (best p) (fst e # xs))" for xs
      by (simp add: progress_step_def)
    from Cons.IH [OF f1 s1]
    have "fails ?p' = fails ?p1 + int (failures (best ?p1) (map fst (take (iters ?p' - iters ?p1) tr)))"
      and st: "stopped ?p' \<longleftrightarrow> 0 < fails ?p' \<and> ten < fails ?p'"
      by simp_all
    then have "fails ?p' = fails p + int (failures (best p) (map fst (take (iters ?p' - iters p) (e # tr))))"
      unfolding k step by simp
    then show ?thesis unfolding q using st by simp
  qed
qed

lemma fit_loop_total:
  fixes B :: "('w, 'x, 'l::linorder, 'o, 'r) backend"
  assumes m: "model s < length (heap s)"
    and esz: "0 < epoch_size s" and mx: "0 \<le> max_epoch s"
    and et: "epoch_trace B trainX trainy (epoch_size s) (batch_size s) devX devy
               (nat (max_epoch s div epoch_size s) + 1) (heap s ! model s, optimizer s, g) = Inr tr"
    and p': "p' = run_trace es (tenacity s) (max_epoch s) (epoch_size s) progress_init tr"
  shows "\<exists>st'. fit_loop B es trainX trainy devX devy (fit_init (s\<lparr>nepoch := 0, rng := g\<rparr>)) = Some (Inr st') \<and>
           follows st' p' \<and> same_config s (self st') \<and> iters p' \<le> length tr"
proof -
  let ?ten = "tenacity s" and ?mx = "max_epoch s" and ?esz = "epoch_size s"
  let ?p0 = "progress_init :: 'w progress"
  let ?st = "fit_init (s\<lparr>nepoch := 0, rng := g\<rparr>)"
  have len: "length tr = nat (?mx div ?esz) + 1"
    using epoch_trace_entries [OF et] by simp
  have c2: "iters p' \<le> length tr"
    using run_trace_best [of ?p0 es ?ten ?mx ?esz tr] by (simp add: p' progress_init_def)
  have ex: "loop_exit ?mx ?esz p'"
  proof -
    from run_trace_exhaust [of ?mx ?esz es ?ten ?p0 tr]
    have "loop_exit ?mx ?esz p' \<or> iters p' = length tr"
      by (simp add: p' progress_init_def)
    then show ?thesis
    proof
      assume "iters p' = length tr"
      then have "?mx < int (iters p') * ?esz"
        using max_iterations_exceed [OF esz mx] len by simp
      then show ?thesis by (simp add: loop_exit_def)
    qed simp
  qed
  have sf: "self ?st = s\<lparr>nepoch := 0, rng := g\<rparr>" by (simp add: fit_init_def)
  have et0: "epoch_trace B trainX trainy (epoch_size (self ?st)) (batch_size (self ?st)) devX devy
               (nat (?mx div ?esz) + 1) (live (self ?st)) = Inr tr"
    using et by (simp add: sf live_def)
  have ex0: "loop_exit (max_epoch (self ?st)) (epoch_size (self ?st))
           (run_trace es (tenacity (self ?st)) (max_epoch (self ?st)) (epoch_size (self ?st)) progress_init tr)"
    using ex by (simp add: sf p')
  from fit_loop_run_trace [OF et0 follows_init [OF m] ex0]
  obtain st' where "fit_loop B es trainX trainy devX devy ?st = Some (Inr st')"
    "follows st' p'" "same_config (self ?st) (self st')"
    by (auto simp: sf p')
  then show ?thesis using c2 by (auto simp: same_config_def sf)
qed


lemma toy_trace5:
  "epoch_trace toy_backend [5] [0] 1 1 [0, 2] [1, 1] 5 (0, 0, 0) =
     Inr [(1 / 2, 1), (1 / 2, 2), (1, 3), (1, 4), (1, 5)]"
  by (simp add: epoch_trace.simps eval_nat_numeral toy_backend_def score_weights_def range0_def
        batch_slice_def gather_def torch_max1_def eq_sum_def first_max_def)


section \<open>Early stopping\<close>

text \<open>
  C1, as the code has it. Let the trace of the first \<open>E + T + 1\<close> epochs exist, where
  \<open>T\<close> is the tenacity (0 if it is negative), let the validation accuracy increase
  strictly over the first \<open>E \<ge> 1\<close> epochs and not exceed the accuracy of epoch \<open>E\<close> in the
  \<open>T + 1\<close> epochs after it, and let \<^verbatim>\<open>max_epoch\<close> leave room for these epochs. Then \<^verbatim>\<open>fit\<close>
  with early stopping runs exactly \<open>E + T + 1\<close> epochs, returns the accuracy of epoch \<open>E\<close>,
  and the model it installs holds the weights the network had after epoch \<open>E\<close>.
\<close>

theorem fit_early_stopping:
  fixes B :: "('w, 'x, 'l::linorder, 'o, 'r) backend"
  assumes ps: "prepare_split B (rng s) X y validation_data validation_split =
                 Inr (trainX, trainy, devX, devy, g)"
    and m: "model s < length (heap s)"
    and et: "epoch_trace B trainX trainy (epoch_size s) (batch_size s) devX devy (E + T + 1)
               (heap s ! model s, optimizer s, g) = Inr tr"
    and T: "T = nat (tenacity s)"
    and E: "0 < E"
    and inc: "sorted_wrt (<) (map fst (take E tr))"
    and flat: "\<forall>e \<in> set (drop E tr). fst e \<le> fst (tr ! (E - 1))"
    and mx: "0 \<le> max_epoch s" "int (E + T + 1) * epoch_size s \<le> max_epoch s"
  shows "\<exists>s'. fit B s X y validation_data validation_split True =
                 Some (Inr (fst (tr ! (E - 1)), s')) \<and>
               heap s' ! model s' = snd (tr ! (E - 1)) \<and>
               nepoch s' = int (E + T + 1) * epoch_size s"
proof -
  let ?inc = "take E tr" and ?flat = "drop E tr"
  let ?ten = "tenacity s" and ?mx = "max_epoch s" and ?esz = "epoch_size s"
  have len: "length tr = E + T + 1" and nn: "\<forall>e \<in> set tr. 0 \<le> fst e"
    using epoch_trace_entries [OF et] by simp_all
  have g: "int i * ?esz \<le> ?mx" if "i \<le> E + T + 1" for i
    by (rule guard_le [OF mx that])
  have linc: "length ?inc = E" and lflat: "length ?flat = Suc T" using len by simp_all
  have ine: "?inc \<noteq> []" using E linc by auto
  have "last ?inc = ?inc ! (length ?inc - 1)" by (rule last_conv_nth [OF ine])
  also have "\<dots> = ?inc ! (E - 1)" using linc by simp
  also have "\<dots> = tr ! (E - 1)" using E by (intro nth_take) simp
  finally have last: "last ?inc = tr ! (E - 1)" .
  have a2: "\<forall>e \<in> set ?inc. best (progress_init :: 'w progress) < fst e"
  proof
    fix e assume "e \<in> set ?inc"
    then have "e \<in> set tr" by (rule in_set_takeD)
    then have "0 \<le> fst e" using nn by blast
    then show "best (progress_init :: 'w progress) < fst e" by (simp add: progress_init_def)
  qed
  have a5: "\<forall>i < length ?inc. int (iters (progress_init :: 'w progress) + i) * ?esz \<le> ?mx"
    using g by (simp add: progress_init_def)
  let ?pA = "(progress_init :: 'w progress)\<lparr>iters := E, best := fst (tr ! (E - 1)),
                snap := Some (snd (tr ! (E - 1)))\<rparr>"
  have A: "run_trace True ?ten ?mx ?esz progress_init (?inc @ ?flat) =
           run_trace True ?ten ?mx ?esz ?pA ?flat"
    using run_trace_improving [OF inc a2 ine _ a5, of True ?ten ?flat]
    unfolding linc last by (simp add: progress_init_def)
  have b2: "T = nat (?ten - fails ?pA)" using T by (simp add: progress_init_def)
  have b3: "\<forall>e \<in> set ?flat. fst e \<le> best ?pA" using flat by simp
  have b4: "\<not> stopped ?pA" by (simp add: progress_init_def)
  have b5: "\<forall>i \<le> T. int (iters ?pA + i) * ?esz \<le> ?mx"
  proof (intro allI impI)
    fix i assume "i \<le> T"
    then have "int (E + i) * ?esz \<le> ?mx" by (intro g) simp
    then show "int (iters ?pA + i) * ?esz \<le> ?mx" by simp
  qed
  let ?p' = "?pA\<lparr>iters := E + Suc T, stopped := True, fails := int (Suc T)\<rparr>"
  have Bq: "run_trace True ?ten ?mx ?esz ?pA ?flat = ?p'"
    using run_trace_plateau [OF lflat b2 b3 b4 b5] by (simp add: progress_init_def)
  have p': "?p' = run_trace True ?ten ?mx ?esz progress_init tr"
    using A Bq by simp
  have ex: "loop_exit ?mx ?esz ?p'" by (simp add: loop_exit_def)
  have sn: "snap ?p' = Some (snd (tr ! (E - 1)))" by simp
  from fit_run_trace [OF ps m et p' ex sn]
  obtain s' where "fit B s X y validation_data validation_split True = Some (Inr (best ?p', s'))"
    "heap s' ! model s' = snd (tr ! (E - 1))" "nepoch s' = int (iters ?p') * ?esz"
    by blast
  then have "fit B s X y validation_data validation_split True = Some (Inr (fst (tr ! (E - 1)), s')) \<and>
      heap s' ! model s' = snd (tr ! (E - 1)) \<and> nepoch s' = int (E + T + 1) * ?esz"
    by simp
  then show ?thesis by blast
qed

theorem fit_early_stopping_witness:
  "\<exists>s'. fit toy_backend toy_trainer [5] [0] (Some ([0, 1], [1, 1])) None True = Some (Inr (1, s')) \<and>
        heap s' ! model s' = 2 \<and> nepoch s' = 4"
proof -
  let ?tr = "[(1 / 2, 1), (1, 2), (1, 3), (1, 4)] :: (real \<times> nat) list"
  have ps: "prepare_split toy_backend (rng toy_trainer) [5] [0] (Some ([0, 1], [1, 1])) None =
              Inr ([5], [0], [0, 1], [1, 1], 0)"
    by (simp add: toy_run_defs)
  have m: "model toy_trainer < length (heap toy_trainer)" by (simp add: toy_trainer_def)
  have et: "epoch_trace toy_backend [5] [0] (epoch_size toy_trainer) (batch_size toy_trainer)
              [0, 1] [1, 1] (2 + 1 + 1) (heap toy_trainer ! model toy_trainer, optimizer toy_trainer, 0)
            = Inr ?tr"
    using toy_trace by (simp add: toy_trainer_def)
  have T: "1 = nat (tenacity toy_trainer)" by (simp add: toy_trainer_def)
  have E: "0 < (2 :: nat)" by simp
  have inc: "sorted_wrt (<) (map fst (take 2 ?tr))" by simp
  have flat: "\<forall>e \<in> set (drop 2 ?tr). fst e \<le> fst (?tr ! (2 - 1))" by simp
  have mx: "0 \<le> max_epoch toy_trainer" "int (2 + 1 + 1) * epoch_size toy_trainer \<le> max_epoch toy_trainer"
    by (simp_all add: toy_trainer_def)
  from fit_early_stopping [OF ps m et T E inc flat mx]
  show ?thesis by (simp add: toy_trainer_def)
qed


text \<open>
  C1 as stated fails. With tenacity 1 the validation accuracies of the run below are
  1/2, 1, 1, 1: they increase strictly over the first \<open>E = 2\<close> epochs and never improve
  afterwards, and training stops after epoch 4, not after epoch \<open>E + tenacity = 3\<close>
  (\<^verbatim>\<open>nepoch\<close> counts the epochs here, \<^verbatim>\<open>epoch_size\<close> being 1).
\<close>

theorem fit_early_stopping_counterexample:
  "epoch_trace toy_backend [5] [0] 1 1 [0, 1] [1, 1] 4 (0, 0, 0) =
     Inr [(1 / 2, 1), (1, 2), (1, 3), (1, 4)] \<and>
   fit toy_backend toy_trainer [5] [0] (Some ([0, 1], [1, 1])) None True =
     Some (Inr (1, \<lparr>heap = [4, 1, 2], model = 2, optimizer = 4, rng = 4, nepoch = 4,
                     batch_size = 1, tenacity = 1, epoch_size = 1, max_epoch = 10\<rparr>))"
  by (simp add: epoch_trace.simps eval_nat_numeral toy_run_defs fit_loop.simps)

section \<open>The early-stop counter\<close>

text \<open>
  C2, as the code has it: \<^verbatim>\<open>fit\<close> never resets the early-stop counter. In one execution
  of the loop body, an epoch whose accuracy is strictly above the best so far leaves the
  counter and the stop flag as they are; with early stopping, any other epoch adds one to
  the counter and sets the stop flag if the counter had reached \<^verbatim>\<open>tenacity\<close> before. Over
  a whole run with early stopping (every epoch that \<^verbatim>\<open>max_epoch\<close> admits can be trained
  and scored, \<open>tr\<close> being their trace), the loop ends after some number \<open>k\<close> of epochs with
  the counter equal to the number of all non-improving epochs among these \<open>k\<close>,
  consecutive or not, and the stop flag is set exactly if that number is positive and
  above \<^verbatim>\<open>tenacity\<close>.
\<close>

theorem early_stop_count_never_reset:
  fixes B :: "('w, 'x, 'l::linorder, 'o, 'r) backend"
  shows
  "(\<forall>early_stop trainX trainy devX devy st st'.
      fit_body B early_stop trainX trainy devX devy st = Inr st' \<longrightarrow>
      (\<exists>s1 accuracy.
         trainepoch B (self st) trainX trainy (epoch_size (self st)) = Inr s1 \<and>
         score B s1 devX devy = Inr accuracy \<and>
         (bestaccuracy st < accuracy \<longrightarrow>
            early_stop_count st' = early_stop_count st \<and> stop_train st' = stop_train st) \<and>
         (\<not> bestaccuracy st < accuracy \<and> early_stop \<longrightarrow>
            early_stop_count st' = early_stop_count st + 1 \<and>
            (stop_train st' \<longleftrightarrow> stop_train st \<or> tenacity (self st) \<le> early_stop_count st)) \<and>
         (\<not> bestaccuracy st < accuracy \<and> \<not> early_stop \<longrightarrow>
            early_stop_count st' = early_stop_count st \<and> stop_train st' = stop_train st))) \<and>
   (\<forall>s trainX trainy devX devy g tr.
      model s < length (heap s) \<and> 0 < epoch_size s \<and> 0 \<le> max_epoch s \<and>
      epoch_trace B trainX trainy (epoch_size s) (batch_size s) devX devy
        (nat (max_epoch s div epoch_size s) + 1) (heap s ! model s, optimizer s, g) = Inr tr \<longrightarrow>
      (\<exists>st' k.
         fit_loop B True trainX trainy devX devy (fit_init (s\<lparr>nepoch := 0, rng := g\<rparr>)) = Some (Inr st') \<and>
         k \<le> length tr \<and> nepoch (self st') = int k * epoch_size s \<and>
         early_stop_count st' = int (failures (- 1) (map fst (take k tr))) \<and>
         (stop_train st' \<longleftrightarrow> 0 < early_stop_count st' \<and> tenacity s < early_stop_count st')))"
proof (intro conjI allI impI)
  fix early_stop trainX trainy devX devy and st st' :: "('w, 'o, 'r) fit_state"
  assume "fit_body B early_stop trainX trainy devX devy st = Inr st'"
  then show "\<exists>s1 accuracy.
         trainepoch B (self st) trainX trainy (epoch_size (self st)) = Inr s1 \<and>
         score B s1 devX devy = Inr accuracy \<and>
         (bestaccuracy st < accuracy \<longrightarrow>
            early_stop_count st' = early_stop_count st \<and> stop_train st' = stop_train st) \<and>
         (\<not> bestaccuracy st < accuracy \<and> early_stop \<longrightarrow>
            early_stop_count st' = early_stop_count st + 1 \<and>
            (stop_train st' \<longleftrightarrow> stop_train st \<or> tenacity (self st) \<le> early_stop_count st)) \<and>
         (\<not> bestaccuracy st < accuracy \<and> \<not> early_stop \<longrightarrow>
            early_stop_count st' = early_stop_count st \<and> stop_train st' = stop_train st)"
    by (auto simp: fit_body_def trainepoch_def deepcopy_def split: sum.splits prod.splits if_splits)
next
  fix s :: "('w, 'o, 'r) trainer" and trainX trainy devX devy g and tr :: "(real \<times> 'w) list"
  assume h: "model s < length (heap s) \<and> 0 < epoch_size s \<and> 0 \<le> max_epoch s \<and>
      epoch_trace B trainX trainy (epoch_size s) (batch_size s) devX devy
        (nat (max_epoch s div epoch_size s) + 1) (heap s ! model s, optimizer s, g) = Inr tr"
  let ?p0 = "progress_init :: 'w progress"
  define p' where "p' = run_trace True (tenacity s) (max_epoch s) (epoch_size s) ?p0 tr"
  from h have m: "model s < length (heap s)" and esz: "0 < epoch_size s" and mx: "0 \<le> max_epoch s"
    and et: "epoch_trace B trainX trainy (epoch_size s) (batch_size s) devX devy
        (nat (max_epoch s div epoch_size s) + 1) (heap s ! model s, optimizer s, g) = Inr tr"
    by simp_all
  from fit_loop_total [OF m esz mx et p'_def]
  obtain st' where fl: "fit_loop B True trainX trainy devX devy (fit_init (s\<lparr>nepoch := 0, rng := g\<rparr>)) = Some (Inr st')"
    and f: "follows st' p'" and cf: "same_config s (self st')" and k: "iters p' \<le> length tr"
    by blast
  have a0: "0 \<le> fails ?p0" and b0: "stopped ?p0 \<longleftrightarrow> 0 < fails ?p0 \<and> tenacity s < fails ?p0"
    by (simp_all add: progress_init_def)
  from run_trace_fails [OF a0 b0, of "max_epoch s" "epoch_size s" tr]
  have fp: "fails p' = int (failures (- 1) (map fst (take (iters p') tr)))"
    and sp: "stopped p' \<longleftrightarrow> 0 < fails p' \<and> tenacity s < fails p'"
    by (simp_all add: p'_def progress_init_def)
  have "nepoch (self st') = int (iters p') * epoch_size s"
    using f cf by (simp add: follows_def same_config_def)
  moreover have "early_stop_count st' = int (failures (- 1) (map fst (take (iters p') tr)))"
    using f fp by (simp add: follows_def)
  moreover have "stop_train st' \<longleftrightarrow> 0 < early_stop_count st' \<and> tenacity s < early_stop_count st'"
    using f sp by (simp add: follows_def)
  ultimately show "\<exists>st' k.
         fit_loop B True trainX trainy devX devy (fit_init (s\<lparr>nepoch := 0, rng := g\<rparr>)) = Some (Inr st') \<and>
         k \<le> length tr \<and> nepoch (self st') = int k * epoch_size s \<and>
         early_stop_count st' = int (failures (- 1) (map fst (take k tr))) \<and>
         (stop_train st' \<longleftrightarrow> 0 < early_stop_count st' \<and> tenacity s < early_stop_count st')"
    using fl k by blast
qed

theorem early_stop_count_never_reset_witness:
  "(\<exists>s1 accuracy.
      trainepoch toy_backend (toy_trainer\<lparr>heap := [2, 1], optimizer := 2, rng := 2, nepoch := 2\<rparr>)
        [5] [0] 1 = Inr s1 \<and>
      score toy_backend s1 [0, 2] [1, 1] = Inr accuracy \<and> 1 / 2 < accuracy \<and>
      early_stop_count
        \<lparr>self = toy_trainer\<lparr>heap := [3, 1, 3], optimizer := 3, rng := 3, nepoch := 3\<rparr>,
         bestaccuracy = 1, bestmodel = Some 2, stop_train = False, early_stop_count = 1\<rparr> =
      early_stop_count
        \<lparr>self = toy_trainer\<lparr>heap := [2, 1], optimizer := 2, rng := 2, nepoch := 2\<rparr>,
         bestaccuracy = 1 / 2, bestmodel = Some 1, stop_train = False, early_stop_count = 1\<rparr>) \<and>
   (\<exists>st'. fit_loop toy_backend True [5] [0] [0, 2] [1, 1]
             (fit_init (toy_trainer\<lparr>max_epoch := 4, nepoch := 0, rng := 0\<rparr>)) = Some (Inr st') \<and>
          nepoch (self st') = 4 \<and> early_stop_count st' = 2 \<and> stop_train st')"
proof (rule conjI)
  let ?S2 = "\<lparr>self = toy_trainer\<lparr>heap := [2, 1], optimizer := 2, rng := 2, nepoch := 2\<rparr>,
         bestaccuracy = 1 / 2, bestmodel = Some 1, stop_train = False, early_stop_count = 1\<rparr>"
  let ?S3 = "\<lparr>self = toy_trainer\<lparr>heap := [3, 1, 3], optimizer := 3, rng := 3, nepoch := 3\<rparr>,
         bestaccuracy = 1, bestmodel = Some 2, stop_train = False, early_stop_count = 1\<rparr>"
  have h: "fit_body toy_backend True [5] [0] [0, 2] [1, 1] ?S2 = Inr ?S3"
    by (simp add: toy_run_defs)
  from early_stop_count_never_reset [of toy_backend] h
  obtain s1 accuracy where
    a: "trainepoch toy_backend (self ?S2) [5] [0] (epoch_size (self ?S2)) = Inr s1"
    and b: "score toy_backend s1 [0, 2] [1, 1] = Inr accuracy"
    and c: "bestaccuracy ?S2 < accuracy \<longrightarrow>
              early_stop_count ?S3 = early_stop_count ?S2 \<and> stop_train ?S3 = stop_train ?S2"
    by blast
  have acc: "accuracy = 1" using a b by (auto simp: toy_run_defs)
  then have "early_stop_count ?S3 = early_stop_count ?S2" using c by simp
  moreover have "trainepoch toy_backend (toy_trainer\<lparr>heap := [2, 1], optimizer := 2, rng := 2, nepoch := 2\<rparr>)
        [5] [0] 1 = Inr s1"
    using a by (simp add: toy_trainer_def)
  ultimately show "\<exists>s1 accuracy.
      trainepoch toy_backend (toy_trainer\<lparr>heap := [2, 1], optimizer := 2, rng := 2, nepoch := 2\<rparr>)
        [5] [0] 1 = Inr s1 \<and>
      score toy_backend s1 [0, 2] [1, 1] = Inr accuracy \<and> 1 / 2 < accuracy \<and>
      early_stop_count ?S3 = early_stop_count ?S2"
    using b acc by (intro exI [of _ s1] exI [of _ accuracy]) simp
next
  let ?s = "toy_trainer\<lparr>max_epoch := 4\<rparr>"
  let ?tr = "[(1 / 2, 1), (1 / 2, 2), (1, 3), (1, 4), (1, 5)] :: (real \<times> nat) list"
  have hyp: "model ?s < length (heap ?s) \<and> 0 < epoch_size ?s \<and> 0 \<le> max_epoch ?s \<and>
      epoch_trace toy_backend [5] [0] (epoch_size ?s) (batch_size ?s) [0, 2] [1, 1]
        (nat (max_epoch ?s div epoch_size ?s) + 1) (heap ?s ! model ?s, optimizer ?s, 0) = Inr ?tr"
    using toy_trace5 by (simp add: toy_trainer_def)
  from early_stop_count_never_reset [of toy_backend] hyp
  obtain st' k where
    fl: "fit_loop toy_backend True [5] [0] [0, 2] [1, 1] (fit_init (?s\<lparr>nepoch := 0, rng := 0\<rparr>)) = Some (Inr st')"
    and n: "nepoch (self st') = int k * epoch_size ?s"
    and c: "early_stop_count st' = int (failures (- 1) (map fst (take k ?tr)))"
    and st: "stop_train st' \<longleftrightarrow> 0 < early_stop_count st' \<and> tenacity ?s < early_stop_count st'"
    by blast
  have e: "fit_loop toy_backend True [5] [0] [0, 2] [1, 1] (fit_init (?s\<lparr>nepoch := 0, rng := 0\<rparr>)) =
      Some (Inr \<lparr>self = toy_trainer\<lparr>heap := [4, 1, 3], optimizer := 4, rng := 4, nepoch := 4, max_epoch := 4\<rparr>,
                 bestaccuracy = 1, bestmodel = Some 2, stop_train = True, early_stop_count = 2\<rparr>)"
    by (simp add: toy_run_defs fit_loop.simps)
  have n4: "nepoch (self st') = 4" using fl e by auto
  then have k: "k = 4" using n by (simp add: toy_trainer_def)
  have c2: "early_stop_count st' = 2" using c unfolding k by simp
  have "stop_train st'" using st c2 by (simp add: toy_trainer_def)
  then show "\<exists>st'. fit_loop toy_backend True [5] [0] [0, 2] [1, 1]
             (fit_init (toy_trainer\<lparr>max_epoch := 4, nepoch := 0, rng := 0\<rparr>)) = Some (Inr st') \<and>
          nepoch (self st') = 4 \<and> early_stop_count st' = 2 \<and> stop_train st'"
    using fl n4 c2 by blast
qed


text \<open>
  C2 as stated fails. Three executions of the loop body, from the start of \<^verbatim>\<open>fit\<close>, with
  validation accuracies 1/2, 1/2 and 1: the second epoch does not improve and sets the
  counter to 1; the third improves on the best accuracy, and the counter is still 1.
\<close>

theorem early_stop_count_reset_counterexample:
  "fit_body toy_backend True [5] [0] [0, 2] [1, 1] (fit_init toy_trainer) =
     Inr \<lparr>self = toy_trainer\<lparr>heap := [1, 1], optimizer := 1, rng := 1, nepoch := 1\<rparr>,
          bestaccuracy = 1 / 2, bestmodel = Some 1, stop_train = False, early_stop_count = 0\<rparr> \<and>
   fit_body toy_backend True [5] [0] [0, 2] [1, 1]
     \<lparr>self = toy_trainer\<lparr>heap := [1, 1], optimizer := 1, rng := 1, nepoch := 1\<rparr>,
      bestaccuracy = 1 / 2, bestmodel = Some 1, stop_train = False, early_stop_count = 0\<rparr> =
     Inr \<lparr>self = toy_trainer\<lparr>heap := [2, 1], optimizer := 2, rng := 2, nepoch := 2\<rparr>,
          bestaccuracy = 1 / 2, bestmodel = Some 1, stop_train = False, early_stop_count = 1\<rparr> \<and>
   fit_body toy_backend True [5] [0] [0, 2] [1, 1]
     \<lparr>self = toy_trainer\<lparr>heap := [2, 1], optimizer := 2, rng := 2, nepoch := 2\<rparr>,
      bestaccuracy = 1 / 2, bestmodel = Some 1, stop_train = False, early_stop_count = 1\<rparr> =
     Inr \<lparr>self = toy_trainer\<lparr>heap := [3, 1, 3], optimizer := 3, rng := 3, nepoch := 3\<rparr>,
          bestaccuracy = 1, bestmodel = Some 2, stop_train = False, early_stop_count = 1\<rparr>"
  by (simp add: toy_run_defs)

section \<open>The snapshot and the live model\<close>

text \<open>
  C4. An execution of the loop body changes no object of the store other than the live
  one, and \<^verbatim>\<open>self.model\<close> keeps referring to the live object: a snapshot, which is
  another object, keeps its weights through every later epoch. As a result, when every
  epoch that \<^verbatim>\<open>max_epoch\<close> admits can be trained and scored (the trace \<open>tr\<close>), \<^verbatim>\<open>fit\<close> runs
  some number \<open>k\<close> of epochs and installs an object, different from the live one, whose
  weights are exactly those the live network had after epoch \<open>j + 1\<close>, the first epoch
  with the highest validation accuracy of the \<open>k\<close> epochs, whatever the \<open>k - j - 1\<close>
  later epochs did to the live network; the accuracy of that epoch is returned.
\<close>

theorem snapshot_not_aliased:
  fixes B :: "('w, 'x, 'l::linorder, 'o, 'r) backend"
  assumes "prepare_split B (rng s) X y validation_data validation_split =
             Inr (trainX, trainy, devX, devy, g)"
    and "model s < length (heap s)"
    and "0 < epoch_size s" and "0 \<le> max_epoch s"
    and "epoch_trace B trainX trainy (epoch_size s) (batch_size s) devX devy
           (nat (max_epoch s div epoch_size s) + 1) (heap s ! model s, optimizer s, g) = Inr tr"
  shows "(\<forall>st st1 b. fit_body B early_stop trainX trainy devX devy st = Inr st1 \<and>
            b < length (heap (self st)) \<and> b \<noteq> model (self st) \<longrightarrow>
            heap (self st1) ! b = heap (self st) ! b \<and> model (self st1) = model (self st)) \<and>
         (\<exists>acc s' k j. fit B s X y validation_data validation_split early_stop = Some (Inr (acc, s')) \<and>
            j < k \<and> k \<le> length tr \<and> nepoch s' = int k * epoch_size s \<and>
            tr ! j = (acc, heap s' ! model s') \<and>
            (\<forall>i < k. fst (tr ! i) \<le> acc) \<and> (\<forall>i < j. fst (tr ! i) < acc) \<and>
            model s' \<noteq> model s)"
proof (rule conjI)
  show "\<forall>st st1 b. fit_body B early_stop trainX trainy devX devy st = Inr st1 \<and>
            b < length (heap (self st)) \<and> b \<noteq> model (self st) \<longrightarrow>
            heap (self st1) ! b = heap (self st) ! b \<and> model (self st1) = model (self st)"
    using fit_body_frame by blast
  from fit_total [OF assms, of early_stop]
  show "\<exists>acc s' k j. fit B s X y validation_data validation_split early_stop = Some (Inr (acc, s')) \<and>
            j < k \<and> k \<le> length tr \<and> nepoch s' = int k * epoch_size s \<and>
            tr ! j = (acc, heap s' ! model s') \<and>
            (\<forall>i < k. fst (tr ! i) \<le> acc) \<and> (\<forall>i < j. fst (tr ! i) < acc) \<and>
            model s' \<noteq> model s"
    by blast
qed


theorem snapshot_not_aliased_witness:
  "(\<exists>acc s' k j.
      fit toy_backend (toy_trainer\<lparr>max_epoch := 3\<rparr>) [5] [0] (Some ([0, 1], [1, 1])) None True =
        Some (Inr (acc, s')) \<and>
      j < k \<and> k = 4 \<and> nepoch s' = 4 \<and>
      [(1 / 2, 1), (1, 2), (1, 3), (1, 4)] ! j = (acc, heap s' ! model s') \<and>
      model s' \<noteq> model (toy_trainer\<lparr>max_epoch := 3\<rparr>) \<and>
      heap s' ! model s' = 2 \<and> heap s' ! model (toy_trainer\<lparr>max_epoch := 3\<rparr>) = 4) \<and>
   heap (self \<lparr>self = toy_trainer\<lparr>heap := [3, 1, 2], optimizer := 3, rng := 3, nepoch := 3, max_epoch := 3\<rparr>,
                bestaccuracy = 1, bestmodel = Some 2, stop_train = False, early_stop_count = 1\<rparr>) ! 2 =
   heap (self \<lparr>self = toy_trainer\<lparr>heap := [2, 1, 2], optimizer := 2, rng := 2, nepoch := 2, max_epoch := 3\<rparr>,
                bestaccuracy = 1, bestmodel = Some 2, stop_train = False, early_stop_count = 0\<rparr>) ! 2"
proof -
  let ?s = "toy_trainer\<lparr>max_epoch := 3\<rparr>"
  let ?tr = "[(1 / 2, 1), (1, 2), (1, 3), (1, 4)] :: (real \<times> nat) list"
  let ?T2 = "\<lparr>self = toy_trainer\<lparr>heap := [2, 1, 2], optimizer := 2, rng := 2, nepoch := 2, max_epoch := 3\<rparr>,
                bestaccuracy = 1, bestmodel = Some 2, stop_train = False, early_stop_count = 0\<rparr>"
  let ?T3 = "\<lparr>self = toy_trainer\<lparr>heap := [3, 1, 2], optimizer := 3, rng := 3, nepoch := 3, max_epoch := 3\<rparr>,
                bestaccuracy = 1, bestmodel = Some 2, stop_train = False, early_stop_count = 1\<rparr>"
  have ps: "prepare_split toy_backend (rng ?s) [5] [0] (Some ([0, 1], [1, 1])) None =
              Inr ([5], [0], [0, 1], [1, 1], 0)"
    by (simp add: toy_run_defs)
  have m: "model ?s < length (heap ?s)" by (simp add: toy_trainer_def)
  have esz: "0 < epoch_size ?s" and mx: "0 \<le> max_epoch ?s" by (simp_all add: toy_trainer_def)
  have et: "epoch_trace toy_backend [5] [0] (epoch_size ?s) (batch_size ?s) [0, 1] [1, 1]
              (nat (max_epoch ?s div epoch_size ?s) + 1) (heap ?s ! model ?s, optimizer ?s, 0)
            = Inr ?tr"
    using toy_trace by (simp add: toy_trainer_def)
  note inst = snapshot_not_aliased [OF ps m esz mx et, of True]
  from inst obtain acc s' k j where
    f: "fit toy_backend ?s [5] [0] (Some ([0, 1], [1, 1])) None True = Some (Inr (acc, s'))"
    and jk: "j < k" and n: "nepoch s' = int k * epoch_size ?s"
    and tj: "?tr ! j = (acc, heap s' ! model s')" and ms: "model s' \<noteq> model ?s"
    by blast
  have e: "fit toy_backend ?s [5] [0] (Some ([0, 1], [1, 1])) None True =
     Some (Inr (1, \<lparr>heap = [4, 1, 2], model = 2, optimizer = 4, rng = 4, nepoch = 4,
                     batch_size = 1, tenacity = 1, epoch_size = 1, max_epoch = 3\<rparr>))"
    by (simp add: toy_run_defs fit_loop.simps)
  have s': "s' = \<lparr>heap = [4, 1, 2], model = 2, optimizer = 4, rng = 4, nepoch = 4,
                     batch_size = 1, tenacity = 1, epoch_size = 1, max_epoch = 3\<rparr>"
    using f e by simp
  have k: "k = 4" using n by (simp add: s' toy_trainer_def)
  have first: "fit toy_backend ?s [5] [0] (Some ([0, 1], [1, 1])) None True = Some (Inr (acc, s')) \<and>
      j < k \<and> k = 4 \<and> nepoch s' = 4 \<and> ?tr ! j = (acc, heap s' ! model s') \<and>
      model s' \<noteq> model ?s \<and> heap s' ! model s' = 2 \<and> heap s' ! model ?s = 4"
    using f jk k tj ms by (simp add: s' toy_trainer_def)
  have h: "fit_body toy_backend True [5] [0] [0, 1] [1, 1] ?T2 = Inr ?T3"
    by (simp add: toy_run_defs)
  have b: "2 < length (heap (self ?T2))" "2 \<noteq> model (self ?T2)" by (simp_all add: toy_trainer_def)
  from inst h b have second: "heap (self ?T3) ! 2 = heap (self ?T2) ! 2" by blast
  from first second show ?thesis by blast
qed

text \<open>
  C10. When \<^verbatim>\<open>max_epoch\<close> is not negative, \<^verbatim>\<open>fit\<close> never fails on the unbound variable
  \<^verbatim>\<open>bestmodel\<close>, and an accuracy it returns is not negative: the loop body is executed
  at least once, and if this first execution completes, its accuracy is above the initial
  \<open>-1\<close>, a snapshot is taken and \<^verbatim>\<open>bestmodel\<close> is bound from then on. Moreover, when
  \<^verbatim>\<open>epoch_size\<close> is positive and every epoch that \<^verbatim>\<open>max_epoch\<close> admits can be trained and
  scored (which needs a non-empty validation set), \<^verbatim>\<open>fit\<close> does return, after at least one
  epoch, with a snapshot installed.
\<close>

theorem fit_bestmodel_always_bound:
  fixes B :: "('w, 'x, 'l::linorder, 'o, 'r) backend"
  assumes "0 \<le> max_epoch s"
  shows "fit B s X y validation_data validation_split early_stop \<noteq> Some (Inl UnboundLocalError) \<and>
         (\<forall>acc s'. fit B s X y validation_data validation_split early_stop = Some (Inr (acc, s')) \<longrightarrow>
            0 \<le> acc) \<and>
         (\<forall>trainX trainy devX devy g st1.
            fit_body B early_stop trainX trainy devX devy (fit_init (s\<lparr>nepoch := 0, rng := g\<rparr>)) = Inr st1 \<longrightarrow>
            fit_loop B early_stop trainX trainy devX devy (fit_init (s\<lparr>nepoch := 0, rng := g\<rparr>)) =
              fit_loop B early_stop trainX trainy devX devy st1 \<and>
            bestmodel st1 \<noteq> None \<and> 0 \<le> bestaccuracy st1) \<and>
         (\<forall>trainX trainy devX devy g tr.
            prepare_split B (rng s) X y validation_data validation_split =
              Inr (trainX, trainy, devX, devy, g) \<and>
            model s < length (heap s) \<and> 0 < epoch_size s \<and>
            epoch_trace B trainX trainy (epoch_size s) (batch_size s) devX devy
              (nat (max_epoch s div epoch_size s) + 1) (heap s ! model s, optimizer s, g) = Inr tr \<longrightarrow>
            (\<exists>acc s'. fit B s X y validation_data validation_split early_stop = Some (Inr (acc, s')) \<and>
               0 \<le> acc \<and> epoch_size s \<le> nepoch s' \<and> model s' \<noteq> model s))"
proof -
  have first: "fit_loop B early_stop trainX trainy devX devy (fit_init (s\<lparr>nepoch := 0, rng := g\<rparr>)) =
          (case fit_body B early_stop trainX trainy devX devy (fit_init (s\<lparr>nepoch := 0, rng := g\<rparr>)) of
             Inl e \<Rightarrow> Some (Inl e)
           | Inr st1 \<Rightarrow> fit_loop B early_stop trainX trainy devX devy st1)"
    for trainX trainy devX devy g
    using assms by (subst fit_loop.simps) (simp add: fit_init_def)
  have body: "bestmodel st1 \<noteq> None \<and> 0 \<le> bestaccuracy st1"
    if "fit_body B early_stop trainX trainy devX devy (fit_init (s\<lparr>nepoch := 0, rng := g\<rparr>)) = Inr st1"
    for trainX trainy devX devy g st1
    using fit_body_score [OF that] by (simp add: fit_init_def)
  have loop: "r \<noteq> Inl UnboundLocalError \<and> (\<forall>st'. r = Inr st' \<longrightarrow> bestmodel st' \<noteq> None \<and> 0 \<le> bestaccuracy st')"
    if fl: "fit_loop B early_stop trainX trainy devX devy (fit_init (s\<lparr>nepoch := 0, rng := g\<rparr>)) = Some r"
    for trainX trainy devX devy g r
  proof (cases "fit_body B early_stop trainX trainy devX devy (fit_init (s\<lparr>nepoch := 0, rng := g\<rparr>))")
    case (Inl e)
    then have "r = Inl e" using fl first [of trainX trainy devX devy g] by simp
    then show ?thesis using fit_body_error [OF Inl] by simp
  next
    case (Inr st1)
    then have "fit_loop B early_stop trainX trainy devX devy st1 = Some r"
      using fl first [of trainX trainy devX devy g] by simp
    from fit_loop_keeps_bestmodel [OF this] body [OF Inr]
    show ?thesis by blast
  qed
  have c1: "fit B s X y validation_data validation_split early_stop \<noteq> Some (Inl UnboundLocalError)"
    using loop prepare_split_error [of B "rng s" X y validation_data validation_split]
    by (fastforce simp: fit_def split: sum.splits prod.splits option.splits)
  have c2: "0 \<le> acc" if "fit B s X y validation_data validation_split early_stop = Some (Inr (acc, s'))"
    for acc s'
    using that loop
    by (fastforce simp: fit_def split: sum.splits prod.splits option.splits)
  have c3: "fit_loop B early_stop trainX trainy devX devy (fit_init (s\<lparr>nepoch := 0, rng := g\<rparr>)) =
              fit_loop B early_stop trainX trainy devX devy st1 \<and>
            bestmodel st1 \<noteq> None \<and> 0 \<le> bestaccuracy st1"
    if "fit_body B early_stop trainX trainy devX devy (fit_init (s\<lparr>nepoch := 0, rng := g\<rparr>)) = Inr st1"
    for trainX trainy devX devy g st1
    using that first [of trainX trainy devX devy g] body [OF that] by simp
  have c4: "\<exists>acc s'. fit B s X y validation_data validation_split early_stop = Some (Inr (acc, s')) \<and>
               0 \<le> acc \<and> epoch_size s \<le> nepoch s' \<and> model s' \<noteq> model s"
    if ps: "prepare_split B (rng s) X y validation_data validation_split =
              Inr (trainX, trainy, devX, devy, g)"
      and m: "model s < length (heap s)" and esz: "0 < epoch_size s"
      and et: "epoch_trace B trainX trainy (epoch_size s) (batch_size s) devX devy
              (nat (max_epoch s div epoch_size s) + 1) (heap s ! model s, optimizer s, g) = Inr tr"
    for trainX trainy devX devy g tr
  proof -
    from fit_total [OF ps m esz assms et, of early_stop]
    obtain acc s' k j where f: "fit B s X y validation_data validation_split early_stop = Some (Inr (acc, s'))"
      and jk: "j < k" and n: "nepoch s' = int k * epoch_size s" and ms: "model s' \<noteq> model s"
      and a: "0 \<le> acc"
      by blast
    have "1 \<le> int k" using jk by simp
    then have "1 * epoch_size s \<le> int k * epoch_size s" using esz by (intro mult_right_mono) simp_all
    then have "epoch_size s \<le> nepoch s'" using n by simp
    then show ?thesis using f a ms by blast
  qed
  show ?thesis using c1 c2 c3 c4 by blast
qed


theorem fit_bestmodel_always_bound_witness:
  "fit toy_backend toy_trainer [5] [0] (Some ([0, 1], [1, 1])) None True \<noteq> Some (Inl UnboundLocalError) \<and>
   fit toy_backend toy_trainer [5] [0] (Some ([0, 1], [1, 1])) None True =
     Some (Inr (1, \<lparr>heap = [4, 1, 2], model = 2, optimizer = 4, rng = 4, nepoch = 4,
                     batch_size = 1, tenacity = 1, epoch_size = 1, max_epoch = 10\<rparr>))"
proof -
  have h: "0 \<le> max_epoch toy_trainer" by (simp add: toy_trainer_def)
  have e: "fit toy_backend toy_trainer [5] [0] (Some ([0, 1], [1, 1])) None True =
     Some (Inr (1, \<lparr>heap = [4, 1, 2], model = 2, optimizer = 4, rng = 4, nepoch = 4,
                     batch_size = 1, tenacity = 1, epoch_size = 1, max_epoch = 10\<rparr>))"
    by (simp add: toy_run_defs fit_loop.simps)
  have a: "fit toy_backend toy_trainer [5] [0] (Some ([0, 1], [1, 1])) None True \<noteq>
      Some (Inl UnboundLocalError)"
    by (rule conjunct1 [OF fit_bestmodel_always_bound [OF h, of toy_backend "[5]" "[0]"
          "Some ([0, 1], [1, 1])" None True]])
  show ?thesis by (rule conjI [OF a e])
qed

end
